theory Spec2Isabelle
  imports Complex_Main "HOL-Library.Word" "HOL-Library.Multiset" "HOL-Library.AList"
    "HOL-Library.Monad_Syntax"
begin

section \<open>Mask synthesis of the photo-editing routes\<close>

text \<open>
  The development embeds the mask-synthesis code of
  \<^verbatim>\<open>src/app/api/ai/edit-photo/route.ts\<close> (the heuristic classifier) and of
  \<^verbatim>\<open>src/unnamed/part_001\<close> (the geometric ellipse mask).

  Conventions of the embedding.
  \<^item> A \<^verbatim>\<open>Uint8Array\<close> is a list of 8-bit words. Reading a typed array outside its
    bounds yields \<^verbatim>\<open>undefined\<close> in JavaScript; \<open>rd\<close> returns \<open>None\<close> there, and every
    use site spells out what the source does with \<^verbatim>\<open>undefined\<close>. Writing outside the
    bounds is ignored by a typed array, as \<open>xs[i := v]\<close> is in HOL.
  \<^item> A JavaScript number is an IEEE 754 double: a real number here, together with the
    two special values the code can produce (\<open>PosInf\<close> from a division by zero, \<open>NaN\<close>
    from arithmetic on \<^verbatim>\<open>undefined\<close>). An operation whose exact result need not be a
    double is followed by \<open>fl64\<close>, the rounding to the nearest double; a decimal literal
    \<open>c\<close> of the source denotes \<open>fl64 c\<close>; a store into a \<^verbatim>\<open>Float32Array\<close> is followed
    by \<open>fl32\<close>. Sums, differences and products of integers are exact below \<open>2^53\<close> and
    carry no rounding. \<^verbatim>\<open>Math.sqrt\<close> is taken to be correctly rounded, as the IEEE square
    root is. The one place where the rounding is left out is the composite score of
    \<open>isBackgroundPixel\<close>, whose terms are added as exact reals.
  \<^item> A \<^verbatim>\<open>for\<close> loop over a range is a \<open>fold\<close> over that range, threading the array
    that the loop body mutates.
  \<^item> Console output is not modelled, except for the three warnings of the classifier,
    which are returned as values. The image decoding and the PNG encoding done by the
    \<^verbatim>\<open>sharp\<close> library are parameters of the classifier's entry point; the ellipse
    function returns the raw RGBA buffer that it hands to the encoder.
\<close>

subsection \<open>Typed arrays and numbers\<close>

type_synonym u8 = "8 word"
type_synonym uint8array = "u8 list"

definition rd :: "'a list \<Rightarrow> nat \<Rightarrow> 'a option" where
  "rd xs i = (if i < length xs then Some (xs ! i) else None)"

datatype jsnum = Fin real | PosInf | NaN

type_synonym float32array = "jsnum list"

text \<open>\<^verbatim>\<open>a < c\<close> and \<^verbatim>\<open>a > c\<close> for a finite constant \<open>c\<close>: every comparison with NaN is false.\<close>

fun jlt :: "jsnum \<Rightarrow> real \<Rightarrow> bool" where
  "jlt (Fin a) c = (a < c)"
| "jlt PosInf c = False"
| "jlt NaN c = False"

fun jgt :: "jsnum \<Rightarrow> real \<Rightarrow> bool" where
  "jgt (Fin a) c = (a > c)"
| "jgt PosInf c = True"
| "jgt NaN c = False"

fun jadd :: "jsnum \<Rightarrow> jsnum \<Rightarrow> jsnum" where
  "jadd (Fin a) (Fin b) = Fin (a + b)"
| "jadd NaN _ = NaN"
| "jadd _ NaN = NaN"
| "jadd PosInf _ = PosInf"
| "jadd _ PosInf = PosInf"

text \<open>
  \<^verbatim>\<open>a / b\<close> for operands that are never negative at any call of the source (a count, a
  square root): the quotient by zero is \<^verbatim>\<open>Infinity\<close>, and \<^verbatim>\<open>0 / 0\<close> is \<^verbatim>\<open>NaN\<close>.
\<close>

definition jdiv :: "real \<Rightarrow> real \<Rightarrow> jsnum" where
  "jdiv a b = (if b = 0 then (if a = 0 then NaN else PosInf) else Fin (a / b))"

text \<open>Reading a \<^verbatim>\<open>Float32Array\<close> cell into arithmetic: \<^verbatim>\<open>undefined\<close> behaves as NaN.\<close>

definition f32_at :: "float32array \<Rightarrow> nat \<Rightarrow> jsnum" where
  "f32_at xs i = (case rd xs i of Some v \<Rightarrow> v | None \<Rightarrow> NaN)"

subsection \<open>Rounding of IEEE 754 numbers\<close>

text \<open>The nearest integer, a tie going to the even one.\<close>

definition round_even :: "real \<Rightarrow> int" where
  "round_even r =
     (let f = \<lfloor>r\<rfloor>; t = r - of_int f
      in if t < 1 / 2 then f else if 1 / 2 < t then f + 1 else if even f then f else f + 1)"

text \<open>
  Rounding to the nearest number of the binary format with \<open>p\<close> significant bits and
  least normal exponent \<open>emin\<close>, a tie going to the even significand: \<open>e\<close> is the
  binary exponent of \<open>v\<close>, held at \<open>emin\<close> for a subnormal \<open>v\<close>, and \<open>ulp\<close> the distance
  between neighbouring numbers of the format at that exponent. The largest finite number
  of the format is not part of the definition: the operands of the code stay far below
  it for every array that can be allocated.
\<close>

definition float_round :: "nat \<Rightarrow> int \<Rightarrow> real \<Rightarrow> real" where
  "float_round p emin v =
     (if v = 0 then 0
      else (let e = max \<lfloor>log 2 \<bar>v\<bar>\<rfloor> emin;
                ulp = 2 powr real_of_int (e - int p + 1)
            in sgn v * (ulp * of_int (round_even (\<bar>v\<bar> / ulp)))))"

text \<open>binary64, the format of a JavaScript number, and binary32, the format of a cell of
  a \<^verbatim>\<open>Float32Array\<close>.\<close>

definition fl64 :: "real \<Rightarrow> real" where
  "fl64 = float_round 53 (- 1022)"

definition fl32 :: "real \<Rightarrow> real" where
  "fl32 = float_round 24 (- 126)"

text \<open>Rounding leaves \<^verbatim>\<open>Infinity\<close> and NaN as they are.\<close>

fun jfl :: "(real \<Rightarrow> real) \<Rightarrow> jsnum \<Rightarrow> jsnum" where
  "jfl f (Fin a) = Fin (f a)"
| "jfl f PosInf = PosInf"
| "jfl f NaN = NaN"

text \<open>A computed number \<open>b\<close> is close to a quantity \<open>a \<ge> 0\<close> when it is within the relative
  error \<open>eps\<close> of it.\<close>

definition close_to :: "real \<Rightarrow> real \<Rightarrow> real \<Rightarrow> bool" where
  "close_to eps a b \<longleftrightarrow> \<bar>b - a\<bar> \<le> eps * a"

subsection \<open>Binary cleanup and edge smoothing (edit-photo/route.ts, lines 325--435)\<close>

text \<open>The four channel writes \<^verbatim>\<open>buf[idx] = v; ...; buf[idx + 3] = v\<close>.\<close>

definition writeRGBA :: "uint8array \<Rightarrow> nat \<Rightarrow> u8 \<Rightarrow> uint8array" where
  "writeRGBA buf idx v = buf[idx := v, idx + 1 := v, idx + 2 := v, idx + 3 := v]"

definition transparencyThreshold :: u8 where
  "transparencyThreshold = 10"

text \<open>
  The body of the thresholding loop of \<^verbatim>\<open>cleanMaskArtifacts\<close>. With \<^verbatim>\<open>originalAlpha\<close>
  undefined the test \<^verbatim>\<open>originalAlpha < transparencyThreshold\<close> is false. The counters of
  \<^verbatim>\<open>cleaningStats\<close> are only logged and are left out.
\<close>

definition thresholdPixel :: "uint8array \<Rightarrow> nat \<Rightarrow> uint8array \<Rightarrow> uint8array" where
  "thresholdPixel rawMaskData i cleanedMask =
     (let idx = i * 4;
          originalAlpha = rd rawMaskData (idx + 3)
      in if (case originalAlpha of Some a \<Rightarrow> a < transparencyThreshold | None \<Rightarrow> False)
         then writeRGBA cleanedMask idx 0
         else writeRGBA cleanedMask idx 255)"

text \<open>The array \<^verbatim>\<open>cleanedMask\<close> after the thresholding loop (lines 328--366).\<close>

definition cleanedMask :: "uint8array \<Rightarrow> nat \<Rightarrow> nat \<Rightarrow> uint8array" where
  "cleanedMask rawMaskData width height =
     fold (thresholdPixel rawMaskData) [0..<width * height]
       (replicate (width * height * 4) 0)"

text \<open>
  \<^verbatim>\<open>neighbors.reduce((sum, n) => sum + n, 0) / neighbors.length\<close>: one undefined
  neighbour makes the sum NaN. The loops of the pass start at 1, so \<open>x - 1\<close> and \<open>y - 1\<close>
  below are never negative.
\<close>

definition avgNeighbor :: "u8 option list \<Rightarrow> jsnum" where
  "avgNeighbor neighbors =
     (if list_all (\<lambda>n. n \<noteq> None) neighbors
      then jdiv (real (sum_list (map (\<lambda>n. unat (the n)) neighbors))) (real (length neighbors))
      else NaN)"

definition neighborAlphas :: "uint8array \<Rightarrow> nat \<Rightarrow> nat \<Rightarrow> nat \<Rightarrow> u8 option list" where
  "neighborAlphas maskData width x y =
     [rd maskData (((y - 1) * width + x) * 4 + 3),
      rd maskData (((y + 1) * width + x) * 4 + 3),
      rd maskData ((y * width + (x - 1)) * 4 + 3),
      rd maskData ((y * width + (x + 1)) * 4 + 3)]"

definition hasOppositeNeighbor :: "u8 \<Rightarrow> u8 option list \<Rightarrow> bool" where
  "hasOppositeNeighbor alpha neighbors =
     list_ex (\<lambda>n. (alpha = 0 \<and> n = Some 255) \<or> (alpha = 255 \<and> n = Some 0)) neighbors"

text \<open>
  The body of the two loops of \<^verbatim>\<open>applyEdgeSmoothing\<close>: it reads \<^verbatim>\<open>maskData\<close> and
  writes \<^verbatim>\<open>smoothed\<close>. An undefined \<^verbatim>\<open>alpha\<close> is neither 0 nor 255.
\<close>

definition smoothPixel ::
  "uint8array \<Rightarrow> nat \<Rightarrow> nat \<Rightarrow> nat \<Rightarrow> uint8array \<Rightarrow> uint8array" where
  "smoothPixel maskData width x y smoothed =
     (let idx = (y * width + x) * 4 in
      case rd maskData (idx + 3) of
        None \<Rightarrow> smoothed
      | Some alpha \<Rightarrow>
          if alpha = 0 \<or> alpha = 255 then
            (let neighbors = neighborAlphas maskData width x y in
             if hasOppositeNeighbor alpha neighbors then
               (let avg = avgNeighbor neighbors in
                if (alpha = 0 \<and> jlt avg 64) \<or> (alpha = 255 \<and> jgt avg 191) then smoothed
                else if jgt avg 127 then writeRGBA smoothed idx 255
                else writeRGBA smoothed idx 0)
             else smoothed)
          else smoothed)"

definition applyEdgeSmoothing :: "uint8array \<Rightarrow> nat \<Rightarrow> nat \<Rightarrow> uint8array" where
  "applyEdgeSmoothing maskData width height =
     fold (\<lambda>y. fold (\<lambda>x. smoothPixel maskData width x y) [1..<width - 1])
       [1..<height - 1] maskData"

definition cleanMaskArtifacts :: "uint8array \<Rightarrow> nat \<Rightarrow> nat \<Rightarrow> uint8array" where
  "cleanMaskArtifacts rawMaskData width height =
     applyEdgeSmoothing (cleanedMask rawMaskData width height) width height"

subsection \<open>Pixels of an RGBA buffer\<close>

text \<open>The four channels of pixel \<open>i\<close>; fewer than four when the buffer ends early.\<close>

definition pixel :: "uint8array \<Rightarrow> nat \<Rightarrow> u8 list" where
  "pixel buf i = take 4 (drop (i * 4) buf)"

definition transparentPx :: "u8 list" where
  "transparentPx = [0, 0, 0, 0]"

definition opaquePx :: "u8 list" where
  "opaquePx = [255, 255, 255, 255]"

definition binaryPx :: "u8 list \<Rightarrow> bool" where
  "binaryPx p = (p = transparentPx \<or> p = opaquePx)"

text \<open>A width x height RGBA mask all of whose pixels are binary.\<close>

definition binaryMask :: "uint8array \<Rightarrow> nat \<Rightarrow> nat \<Rightarrow> bool" where
  "binaryMask m width height =
     (length m = width * height * 4 \<and> list_all (\<lambda>i. binaryPx (pixel m i)) [0..<width * height])"

subsection \<open>Grayscale and Sobel edge map (edit-photo/route.ts, lines 52--78 and 203--209)\<close>

text \<open>\<^verbatim>\<open>Math.round\<close>: the nearest integer, a tie going up.\<close>

definition js_round :: "real \<Rightarrow> int" where
  "js_round v = \<lfloor>v + 1 / 2\<rfloor>"

text \<open>\<^verbatim>\<open>Math.round(0.299 * r + 0.587 * g + 0.114 * b)\<close>: three products and two sums,
  each rounded to a double, then the nearest integer (which is exact). A channel that is
  \<^verbatim>\<open>undefined\<close> makes the weighted sum NaN, which is \<open>None\<close> here.\<close>

definition getGrayscale :: "uint8array \<Rightarrow> nat \<Rightarrow> int option" where
  "getGrayscale imageData pixelIndex =
     (let idx = pixelIndex * 3 in
      do {
        r \<leftarrow> rd imageData idx;
        g \<leftarrow> rd imageData (idx + 1);
        b \<leftarrow> rd imageData (idx + 2);
        Some (js_round (fl64 (fl64 (fl64 (fl64 0.299 * real (unat r))
                                      + fl64 (fl64 0.587 * real (unat g)))
                               + fl64 (fl64 0.114 * real (unat b)))))
      })"

text \<open>The gradient of the loop body at lines 58--76; NaN as soon as one of the eight
  grey values is NaN. The loops start at 1, so \<open>x - 1\<close> and \<open>y - 1\<close> are never negative.
  Both sums and the sum of their squares are integers; the square root is rounded.\<close>

definition sobelGradient :: "uint8array \<Rightarrow> nat \<Rightarrow> nat \<Rightarrow> nat \<Rightarrow> jsnum" where
  "sobelGradient imageData width x y =
     (case
        do {
          tl \<leftarrow> getGrayscale imageData ((y - 1) * width + (x - 1));
          tm \<leftarrow> getGrayscale imageData ((y - 1) * width + x);
          tr \<leftarrow> getGrayscale imageData ((y - 1) * width + (x + 1));
          ml \<leftarrow> getGrayscale imageData (y * width + (x - 1));
          mr \<leftarrow> getGrayscale imageData (y * width + (x + 1));
          bl \<leftarrow> getGrayscale imageData ((y + 1) * width + (x - 1));
          bm \<leftarrow> getGrayscale imageData ((y + 1) * width + x);
          br \<leftarrow> getGrayscale imageData ((y + 1) * width + (x + 1));
          let sobelX = (tr + 2 * mr + br) - (tl + 2 * ml + bl);
          let sobelY = (bl + 2 * bm + br) - (tl + 2 * tm + tr);
          Some (fl64 (sqrt (real_of_int (sobelX * sobelX + sobelY * sobelY))))
        }
      of Some gradient \<Rightarrow> Fin gradient | None \<Rightarrow> NaN)"

text \<open>The array \<^verbatim>\<open>edgeMap\<close> after the two loops of step 2: a fresh \<^verbatim>\<open>Float32Array\<close> is
  all zero, the loops run over \<open>1 \<le> y < height - 1\<close> and \<open>1 \<le> x < width - 1\<close>, and the
  store \<^verbatim>\<open>edgeMap[idx] = gradient\<close> rounds the gradient to binary32.\<close>

definition sobelEdgeMap :: "uint8array \<Rightarrow> nat \<Rightarrow> nat \<Rightarrow> float32array" where
  "sobelEdgeMap imageData width height =
     fold (\<lambda>y. fold (\<lambda>x edgeMap.
                    edgeMap[y * width + x := jfl fl32 (sobelGradient imageData width x y)])
                  [1..<width - 1])
       [1..<height - 1] (replicate (width * height) (Fin 0))"

subsection \<open>Colour clusters (lines 214--242)\<close>

definition sampleStep :: nat where
  "sampleStep = 8"

text \<open>The values taken by \<^verbatim>\<open>for (let v = from; v < bound; v += sampleStep)\<close>.\<close>

function sampleRange :: "nat \<Rightarrow> nat \<Rightarrow> nat list" where
  "sampleRange v bound = (if v < bound then v # sampleRange (v + sampleStep) bound else [])"
  by pat_completeness auto
termination
  by (relation "measure (\<lambda>(v, bound). bound - v)") (auto simp: sampleStep_def)

declare sampleRange.simps [simp del]

text \<open>A quantised colour: the key \<^verbatim>\<open>`${r},${g},${b}`\<close> of the colour map, a channel that
  is NaN being \<open>None\<close>. The key determines the three numbers and conversely.\<close>

type_synonym colorKey = "nat option \<times> nat option \<times> nat option"

text \<open>\<^verbatim>\<open>Math.floor(imageData[idx] / 32) * 32\<close>.\<close>

definition quantize :: "u8 option \<Rightarrow> nat option" where
  "quantize c = map_option (\<lambda>v. (unat v div 32) * 32) c"

text \<open>\<^verbatim>\<open>colorMap.set(colorKey, (colorMap.get(colorKey) || 0) + 1)\<close> on a map that keeps
  its keys in insertion order.\<close>

definition countColor :: "colorKey \<Rightarrow> (colorKey \<times> nat) list \<Rightarrow> (colorKey \<times> nat) list" where
  "countColor colorKey colorMap =
     AList.update colorKey ((case map_of colorMap colorKey of None \<Rightarrow> 0 | Some c \<Rightarrow> c) + 1)
       colorMap"

definition sampleColor ::
  "uint8array \<Rightarrow> nat \<Rightarrow> nat \<Rightarrow> nat \<Rightarrow> (colorKey \<times> nat) list \<Rightarrow> (colorKey \<times> nat) list" where
  "sampleColor imageData width x y colorMap =
     (let idx = (y * width + x) * 3;
          r = quantize (rd imageData idx);
          g = quantize (rd imageData (idx + 1));
          b = quantize (rd imageData (idx + 2))
      in countColor (r, g, b) colorMap)"

record dominantColor =
  rgb :: colorKey
  frequency :: nat

record colorClusters =
  dominantColors :: "dominantColor list"
  totalSamples :: nat

text \<open>The colour map after the sampling loops (lines 215--228).\<close>

definition sampledColorMap :: "uint8array \<Rightarrow> nat \<Rightarrow> nat \<Rightarrow> (colorKey \<times> nat) list" where
  "sampledColorMap imageData width height =
     fold (\<lambda>y. fold (\<lambda>x. sampleColor imageData width x y) (sampleRange 0 width))
       (sampleRange 0 height) []"

text \<open>\<^verbatim>\<open>Array.prototype.sort\<close> is stable, as \<open>sort_key\<close> is; the comparator
  \<^verbatim>\<open>(a, b) => b[1] - a[1]\<close> orders by decreasing count.\<close>

definition analyzeColorClusters :: "uint8array \<Rightarrow> nat \<Rightarrow> nat \<Rightarrow> colorClusters" where
  "analyzeColorClusters imageData width height =
     (let colorMap = sampledColorMap imageData width height;
          sortedColors = take 5 (sort_key (\<lambda>entry. - int (snd entry)) colorMap)
      in \<lparr>dominantColors =
            map (\<lambda>(color, count). \<lparr>rgb = color, frequency = count\<rparr>) sortedColors,
          totalSamples = (width * height) div (sampleStep * sampleStep)\<rparr>)"

subsection \<open>Background score map (lines 247--286)\<close>

definition edgeThreshold :: real where
  "edgeThreshold = 30"

text \<open>\<^verbatim>\<open>Math.sqrt(Math.pow(r - dr, 2) + Math.pow(g - dg, 2) + Math.pow(b - db, 2))\<close>: the
  argument of the square root is an integer.\<close>

definition colorDistance :: "u8 option \<times> u8 option \<times> u8 option \<Rightarrow> colorKey \<Rightarrow> jsnum" where
  "colorDistance px dominantRgb =
     (case
        do {
          r \<leftarrow> fst px; g \<leftarrow> fst (snd px); b \<leftarrow> snd (snd px);
          dr \<leftarrow> fst dominantRgb; dg \<leftarrow> fst (snd dominantRgb); db \<leftarrow> snd (snd dominantRgb);
          Some (fl64 (sqrt (real_of_int ((int (unat r) - int dr)\<^sup>2 + (int (unat g) - int dg)\<^sup>2
                                           + (int (unat b) - int db)\<^sup>2))))
        }
      of Some d \<Rightarrow> Fin d | None \<Rightarrow> NaN)"

text \<open>The value of \<^verbatim>\<open>backgroundScore\<close> after the loop over the dominant colours
  (lines 264--279) for pixel \<open>i\<close>: the quotient and the sum of
  \<^verbatim>\<open>backgroundScore += dominant.frequency / colorClusters.totalSamples\<close> are each
  rounded to a double.\<close>

definition backgroundScoreAt :: "uint8array \<Rightarrow> colorClusters \<Rightarrow> nat \<Rightarrow> jsnum" where
  "backgroundScoreAt imageData clusters i =
     (let pixelIdx = i * 3;
          px = (rd imageData pixelIdx, rd imageData (pixelIdx + 1), rd imageData (pixelIdx + 2))
      in fold (\<lambda>dominant backgroundScore.
                 if jlt (colorDistance px (rgb dominant)) 60
                 then jfl fl64 (jadd backgroundScore
                        (jfl fl64 (jdiv (real (frequency dominant))
                                     (real (totalSamples clusters)))))
                 else backgroundScore)
           (dominantColors clusters) (Fin 0))"

text \<open>The store \<^verbatim>\<open>backgroundMap[i] = backgroundScore\<close> rounds the score to binary32.\<close>

definition detectBackgroundAreas ::
  "uint8array \<Rightarrow> float32array \<Rightarrow> nat \<Rightarrow> nat \<Rightarrow> colorClusters \<Rightarrow> float32array" where
  "detectBackgroundAreas imageData edgeMap width height clusters =
     fold (\<lambda>i backgroundMap.
             if jlt (f32_at edgeMap i) edgeThreshold
             then backgroundMap[i := jfl fl32 (backgroundScoreAt imageData clusters i)]
             else backgroundMap)
       [0..<width * height] (replicate (width * height) (Fin 0))"

subsection \<open>Composite classification and raw mask (lines 85--148 and 291--320)\<close>

text \<open>The parameters \<^verbatim>\<open>imageData\<close> and \<^verbatim>\<open>colorClusters\<close> of the source function are never
  read by its body; they are kept for the shape of the call.\<close>

definition isBackgroundPixel ::
  "nat \<Rightarrow> nat \<Rightarrow> nat \<Rightarrow> uint8array \<Rightarrow> float32array \<Rightarrow> float32array \<Rightarrow> nat \<Rightarrow> nat
     \<Rightarrow> colorClusters \<Rightarrow> bool" where
  "isBackgroundPixel x y idx imageData edgeMap backgroundAreas width height clusters =
     (let borderDistance = min (min (int x) (int y))
                               (min (int width - int x - 1) (int height - int y - 1));
          borderBias = (if borderDistance < 50 then 0.3 else 0 :: real);
          edgeScore = (if jlt (f32_at edgeMap idx) 25 then 0.4 else 0 :: real);
          colorScore = f32_at backgroundAreas idx;
          centerX = real width / 2;
          centerY = real height / 2;
          centerDistance = sqrt ((real x - centerX)\<^sup>2 + (real y - centerY)\<^sup>2);
          maxDistance = sqrt (centerX\<^sup>2 + centerY\<^sup>2);
          centerBias = (case jdiv centerDistance maxDistance of
                          Fin q \<Rightarrow> Fin (q * 0.2) | PosInf \<Rightarrow> PosInf | NaN \<Rightarrow> NaN);
          backgroundScore = jadd (jadd (jadd (Fin borderBias) (Fin edgeScore)) colorScore) centerBias
      in jgt backgroundScore 0.5)"

record maskState =
  rawMaskData :: uint8array
  protectedPixels :: nat
  editablePixels :: nat
  backgroundDetected :: nat

text \<open>The body of the emission loops (lines 95--121).\<close>

definition emitPixel ::
  "uint8array \<Rightarrow> float32array \<Rightarrow> float32array \<Rightarrow> nat \<Rightarrow> nat \<Rightarrow> colorClusters
     \<Rightarrow> nat \<Rightarrow> nat \<Rightarrow> maskState \<Rightarrow> maskState" where
  "emitPixel imageData edgeMap backgroundAreas width height clusters x y st =
     (let idx = y * width + x;
          maskIdx = idx * 4
      in if isBackgroundPixel x y idx imageData edgeMap backgroundAreas width height clusters
         then st\<lparr>rawMaskData := writeRGBA (rawMaskData st) maskIdx 0,
                 editablePixels := editablePixels st + 1,
                 backgroundDetected := backgroundDetected st + 1\<rparr>
         else st\<lparr>rawMaskData := writeRGBA (rawMaskData st) maskIdx 255,
                 protectedPixels := protectedPixels st + 1\<rparr>)"

text \<open>The state after steps 2 to 4 (lines 52--123): the raw mask and the three counters.\<close>

definition classifyPixels :: "uint8array \<Rightarrow> nat \<Rightarrow> nat \<Rightarrow> maskState" where
  "classifyPixels imageData width height =
     (let edgeMap = sobelEdgeMap imageData width height;
          clusters = analyzeColorClusters imageData width height;
          backgroundAreas = detectBackgroundAreas imageData edgeMap width height clusters
      in fold (\<lambda>y. fold (\<lambda>x. emitPixel imageData edgeMap backgroundAreas width height clusters x y)
                       [0..<width])
           [0..<height]
           \<lparr>rawMaskData = replicate (width * height * 4) 0, protectedPixels = 0,
            editablePixels = 0, backgroundDetected = 0\<rparr>)"

datatype warning = NoBackgroundDetected | NoSubjectDetected | SmallBackgroundArea

record maskResult =
  cleanedMaskData :: uint8array
  warnings :: "warning list"

text \<open>Lines 52--148 of \<^verbatim>\<open>createBackgroundMask\<close>: everything between the decoding of the
  image and the encoding of the mask. The three \<^verbatim>\<open>console.warn\<close> calls are recorded as
  values.\<close>

definition synthesizeMask :: "uint8array \<Rightarrow> nat \<Rightarrow> nat \<Rightarrow> maskResult" where
  "synthesizeMask imageData width height =
     (let st = classifyPixels imageData width height in
      \<lparr>cleanedMaskData = cleanMaskArtifacts (rawMaskData st) width height,
       warnings =
         (if editablePixels st = 0 then [NoBackgroundDetected] else []) @
         (if protectedPixels st = 0 then [NoSubjectDetected] else []) @
         (if real (backgroundDetected st) < fl64 (real (width * height) * fl64 0.1)
          then [SmallBackgroundArea] else [])\<rparr>)"

datatype error = MaskCreationFailed

text \<open>
  \<^verbatim>\<open>createBackgroundMask\<close> with its two calls of the \<^verbatim>\<open>sharp\<close> library as parameters:
  \<open>decode\<close> is the resize to raw RGB of step 1, \<open>encode\<close> the PNG encoding of line 151;
  \<open>None\<close> is an exception thrown by the library, which the \<^verbatim>\<open>catch\<close> block turns into
  the error \<^verbatim>\<open>Failed to create AI-powered editing mask\<close>. The debug file written at lines
  162--191 has a \<^verbatim>\<open>catch\<close> of its own and does not touch the result.
\<close>

definition createBackgroundMask ::
  "('buf \<Rightarrow> nat \<Rightarrow> nat \<Rightarrow> uint8array option) \<Rightarrow> (uint8array \<Rightarrow> nat \<Rightarrow> nat \<Rightarrow> 'png option)
     \<Rightarrow> 'buf \<Rightarrow> nat \<Rightarrow> nat \<Rightarrow> error + 'png \<times> warning list" where
  "createBackgroundMask decode encode imageBuffer width height =
     (case decode imageBuffer width height of
        None \<Rightarrow> Inl MaskCreationFailed
      | Some imageData \<Rightarrow>
          (let res = synthesizeMask imageData width height in
           case encode (cleanedMaskData res) width height of
             None \<Rightarrow> Inl MaskCreationFailed
           | Some maskBuffer \<Rightarrow> Inr (maskBuffer, warnings res)))"

subsection \<open>The composite score as the specification words it\<close>

text \<open>
  The composite score in the words of the specification (section 4.2, step 5), for
  comparison with \<open>isBackgroundPixel\<close>: border bias, edge score and centre bias are
  numbers, the colour score is the cell of the score map.
\<close>

definition spec_backgroundScore ::
  "float32array \<Rightarrow> float32array \<Rightarrow> nat \<Rightarrow> nat \<Rightarrow> nat \<Rightarrow> nat \<Rightarrow> jsnum" where
  "spec_backgroundScore edgeMap scoreMap width height x y =
     (let borderBias = (if Min {x, y, width - x - 1, height - y - 1} < 50 then 0.3 else 0 :: real);
          edgeScore = (if jlt (f32_at edgeMap (y * width + x)) 25 then 0.4 else 0 :: real);
          colorScore = f32_at scoreMap (y * width + x);
          centerBias = sqrt ((real x - real width / 2)\<^sup>2 + (real y - real height / 2)\<^sup>2)
                         / sqrt ((real width / 2)\<^sup>2 + (real height / 2)\<^sup>2) * 0.2
      in jadd (Fin (borderBias + edgeScore + centerBias)) colorScore)"

text \<open>The Euclidean distance of two colours, as a real number without rounding.\<close>

definition spec_colorDistance :: "u8 option \<times> u8 option \<times> u8 option \<Rightarrow> colorKey \<Rightarrow> jsnum" where
  "spec_colorDistance px dominantRgb =
     (case
        do {
          r \<leftarrow> fst px; g \<leftarrow> fst (snd px); b \<leftarrow> snd (snd px);
          dr \<leftarrow> fst dominantRgb; dg \<leftarrow> fst (snd dominantRgb); db \<leftarrow> snd (snd dominantRgb);
          Some (sqrt ((real (unat r) - real dr)\<^sup>2 + (real (unat g) - real dg)\<^sup>2
                        + (real (unat b) - real db)\<^sup>2))
        }
      of Some d \<Rightarrow> Fin d | None \<Rightarrow> NaN)"

text \<open>
  The colour score in the words of the specification (section 4.2, steps 3 and 4), for
  comparison with \<open>detectBackgroundAreas\<close>: 0 where the edge value is not below 30;
  elsewhere the sum, over the dominant colours closer than 60 to the pixel, of the
  frequency divided by the total number of samples taken. Distance, quotients and sum
  are those of the real numbers: nothing is rounded.
\<close>

definition spec_colorScore :: "uint8array \<Rightarrow> nat \<Rightarrow> nat \<Rightarrow> nat \<Rightarrow> jsnum" where
  "spec_colorScore imageData width height i =
     (let samplesTaken = sum_list (map snd (sampledColorMap imageData width height));
          px = (rd imageData (i * 3), rd imageData (i * 3 + 1), rd imageData (i * 3 + 2))
      in if jlt (f32_at (sobelEdgeMap imageData width height) i) 30
         then fold (\<lambda>dominant score.
                      if jlt (spec_colorDistance px (rgb dominant)) 60
                      then jadd score (jdiv (real (frequency dominant)) (real samplesTaken))
                      else score)
                (dominantColors (analyzeColorClusters imageData width height)) (Fin 0)
         else Fin 0)"

subsection \<open>Geometric ellipse mask (unnamed/part_001, lines 42--100)\<close>

text \<open>
  The two copies of the function differ in the radius fractions only: 0.25 and 0.3 in
  \<^verbatim>\<open>unnamed/part_001\<close>, 0.35 and 0.4 in \<^verbatim>\<open>api/cv/[id]/route.ts\<close>. They are parameters
  \<open>fracX\<close> and \<open>fracY\<close> here, the decimal literals of the source. The loops run over
  \<open>x < width\<close> and \<open>y < height\<close> only, so with these fractions both radii are positive
  wherever the two divisions are evaluated. Every operation of the source is followed by
  its rounding to a double.
\<close>

definition ellipseDistance :: "real \<Rightarrow> real \<Rightarrow> nat \<Rightarrow> nat \<Rightarrow> nat \<Rightarrow> nat \<Rightarrow> real" where
  "ellipseDistance fracX fracY width height x y =
     (let centerX = fl64 (real width / 2);
          centerY = fl64 (real height / 2);
          protectedRadiusX = fl64 (real width * fl64 fracX);
          protectedRadiusY = fl64 (real height * fl64 fracY);
          normalizedX = fl64 (fl64 (real x - centerX) / protectedRadiusX);
          normalizedY = fl64 (fl64 (real y - centerY) / protectedRadiusY)
      in fl64 (sqrt (fl64 (fl64 (normalizedX * normalizedX) + fl64 (normalizedY * normalizedY)))))"

text \<open>The variable \<^verbatim>\<open>alpha\<close> of lines 65--76; \<^verbatim>\<open>Math.floor\<close> is exact.\<close>

definition ellipseAlpha :: "real \<Rightarrow> int" where
  "ellipseAlpha distance =
     (if distance \<le> 1.0 then 255
      else if distance \<le> fl64 1.3 then
        (let falloff = max 0 (fl64 (fl64 (fl64 1.3 - distance) / fl64 0.3))
         in \<lfloor>fl64 (255 * falloff)\<rfloor>)
      else 0)"

text \<open>The loop body: \<^verbatim>\<open>alpha\<close> goes to the three colour channels, the fourth channel is
  always 255. A \<^verbatim>\<open>Uint8Array\<close> stores a number modulo 256.\<close>

definition ellipsePixel ::
  "real \<Rightarrow> real \<Rightarrow> nat \<Rightarrow> nat \<Rightarrow> nat \<Rightarrow> nat \<Rightarrow> uint8array \<Rightarrow> uint8array" where
  "ellipsePixel fracX fracY width height x y maskData =
     (let idx = (y * width + x) * 4;
          alpha = ellipseAlpha (ellipseDistance fracX fracY width height x y)
      in maskData[idx := of_int alpha, idx + 1 := of_int alpha, idx + 2 := of_int alpha,
                  idx + 3 := 255])"

definition createBackgroundMask_ellipse :: "real \<Rightarrow> real \<Rightarrow> nat \<Rightarrow> nat \<Rightarrow> uint8array" where
  "createBackgroundMask_ellipse fracX fracY width height =
     fold (\<lambda>y. fold (\<lambda>x. ellipsePixel fracX fracY width height x y) [0..<width])
       [0..<height] (replicate (width * height * 4) 0)"

text \<open>The function of \<^verbatim>\<open>unnamed/part_001\<close> and the one of \<^verbatim>\<open>api/cv/[id]/route.ts\<close>.\<close>

definition createBackgroundMask_part_001 :: "nat \<Rightarrow> nat \<Rightarrow> uint8array" where
  "createBackgroundMask_part_001 = createBackgroundMask_ellipse 0.25 0.3"

definition createBackgroundMask_cv_route :: "nat \<Rightarrow> nat \<Rightarrow> uint8array" where
  "createBackgroundMask_cv_route = createBackgroundMask_ellipse 0.35 0.4"

text \<open>
  The normalised elliptical distance in the words of the specification,
  \<open>sqrt (((x - cx) / rx)\<^sup>2 + ((y - cy) / ry)\<^sup>2)\<close> with the centre at half the width and
  height and the radii \<open>rx\<close> and \<open>ry\<close> the given fractions of the width and height, as a
  real number without rounding.
\<close>

definition spec_ellipseDistance :: "real \<Rightarrow> real \<Rightarrow> nat \<Rightarrow> nat \<Rightarrow> nat \<Rightarrow> nat \<Rightarrow> real" where
  "spec_ellipseDistance fracX fracY width height x y =
     (let cx = real width / 2; cy = real height / 2;
          rx = real width * fracX; ry = real height * fracY
      in sqrt (((real x - cx) / rx)\<^sup>2 + ((real y - cy) / ry)\<^sup>2))"

subsection \<open>Coordinates of the nested loops\<close>

text \<open>The pairs visited by \<^verbatim>\<open>for y ... for x ...\<close>, in the order of the visit.\<close>

definition coords :: "nat list \<Rightarrow> nat list \<Rightarrow> (nat \<times> nat) list" where
  "coords xs ys = concat (map (\<lambda>y. map (\<lambda>x. (x, y)) xs) ys)"

text \<open>The pixels visited by the Sobel loops and by the smoothing loops.\<close>

definition interior :: "nat \<Rightarrow> nat \<Rightarrow> (nat \<times> nat) list" where
  "interior width height = coords [1..<width - 1] [1..<height - 1]"

text \<open>\<^verbatim>\<open>y * width + x\<close>.\<close>

definition pixelIndex :: "nat \<Rightarrow> nat \<times> nat \<Rightarrow> nat" where
  "pixelIndex width p = snd p * width + fst p"

subsection \<open>An example mask\<close>

text \<open>A 4 x 3 binary mask used in examples: the middle row is transparent, and so are the
  corners and the pixel (2, 2).\<close>

definition exampleMask :: uint8array where
  "exampleMask =
     [0, 0, 0, 0, 255, 255, 255, 255, 255, 255, 255, 255, 0, 0, 0, 0,
      0, 0, 0, 0, 0, 0, 0, 0, 0, 0, 0, 0, 0, 0, 0, 0,
      0, 0, 0, 0, 255, 255, 255, 255, 0, 0, 0, 0, 0, 0, 0, 0]"

subsection \<open>An example image\<close>


section \<open>Properties\<close>

subsection \<open>Rounding\<close>

lemma round_even_of_int [simp]: "round_even (of_int m) = m"
  by (simp add: round_even_def)

lemma round_even_cases: "round_even r = \<lfloor>r\<rfloor> \<or> round_even r = \<lfloor>r\<rfloor> + 1"
  by (simp add: round_even_def Let_def)

lemma round_even_lower: "\<lfloor>r\<rfloor> \<le> round_even r"
  using round_even_cases [of r] by auto

lemma round_even_upper: "round_even r \<le> \<lfloor>r\<rfloor> + 1"
  using round_even_cases [of r] by auto

lemma round_even_mono:
  assumes "r \<le> s"
  shows "round_even r \<le> round_even s"
proof (cases "\<lfloor>r\<rfloor> = \<lfloor>s\<rfloor>")
  case True
  then have "r - of_int \<lfloor>r\<rfloor> \<le> s - of_int \<lfloor>s\<rfloor>" using assms by simp
  then show ?thesis using True by (auto simp: round_even_def Let_def)
next
  case False
  then have "\<lfloor>r\<rfloor> < \<lfloor>s\<rfloor>" using floor_mono [OF assms] by simp
  then have "round_even r \<le> \<lfloor>s\<rfloor>" using round_even_upper [of r] by simp
  then show ?thesis using round_even_lower [of s] by simp
qed

lemma round_even_eqI:
  assumes "of_int m - 1 / 2 < r" "r < of_int m + 1 / 2"
  shows "round_even r = m"
proof -
  have "\<lfloor>r\<rfloor> = m \<or> \<lfloor>r\<rfloor> = m - 1" using assms by linarith
  then show ?thesis
  proof
    assume "\<lfloor>r\<rfloor> = m"
    then show ?thesis using assms by (simp add: round_even_def Let_def)
  next
    assume "\<lfloor>r\<rfloor> = m - 1"
    then show ?thesis using assms by (simp add: round_even_def Let_def)
  qed
qed

lemma round_even_nonneg: "0 \<le> r \<Longrightarrow> 0 \<le> round_even r"
  using round_even_mono [of 0 r] round_even_of_int [of 0] by simp

lemma float_round_0 [simp]: "float_round p emin 0 = 0"
  by (simp add: float_round_def)

lemma float_round_minus: "float_round p emin (- v) = - float_round p emin v"
  by (simp add: float_round_def Let_def sgn_minus)

lemma float_round_pos:
  assumes "0 < v"
  shows "float_round p emin v =
     2 powr real_of_int (max \<lfloor>log 2 v\<rfloor> emin - int p + 1)
       * of_int (round_even (v / 2 powr real_of_int (max \<lfloor>log 2 v\<rfloor> emin - int p + 1)))"
  using assms by (simp add: float_round_def Let_def)

lemma float_round_nonneg:
  assumes "0 \<le> v"
  shows "0 \<le> float_round p emin v"
proof (cases "v = 0")
  case True
  then show ?thesis by simp
next
  case False
  then have "0 < v" using assms by simp
  then show ?thesis
    unfolding float_round_pos [OF \<open>0 < v\<close>]
    by (intro mult_nonneg_nonneg) (simp_all add: round_even_nonneg)
qed

text \<open>Evaluation at a positive number whose binade is known.\<close>

lemma float_round_eval:
  assumes "0 < v" "2 powr real_of_int e \<le> v" "v < 2 powr real_of_int (e + 1)" "emin \<le> e"
  shows "float_round p emin v =
     2 powr real_of_int (e - int p + 1)
       * of_int (round_even (v / 2 powr real_of_int (e - int p + 1)))"
proof -
  have "\<lfloor>log 2 v\<rfloor> = e"
    using assms(1-3) by (subst floor_log_eq_powr_iff) simp_all
  then have "max \<lfloor>log 2 v\<rfloor> emin = e" using assms(4) by simp
  then show ?thesis unfolding float_round_pos [OF assms(1)] by simp
qed

lemma float_round_upper:
  assumes "0 < v"
  shows "float_round p emin v \<le> 2 powr real_of_int (max \<lfloor>log 2 v\<rfloor> emin + 1)"
proof -
  define e where "e = max \<lfloor>log 2 v\<rfloor> emin"
  define u where "u = 2 powr real_of_int (e - int p + 1)"
  have u: "0 < u" by (simp add: u_def)
  have "v < 2 powr real_of_int (\<lfloor>log 2 v\<rfloor> + 1)"
    using assms floor_log_eq_powr_iff [of v 2 "\<lfloor>log 2 v\<rfloor>"] by simp
  also have "\<dots> \<le> 2 powr real_of_int (e + 1)" by (simp add: e_def)
  also have "\<dots> = u * 2 powr real p"
    by (simp add: u_def powr_add [symmetric])
  finally have "v / u \<le> 2 powr real p" using u by (simp add: field_simps)
  also have "2 powr real p = of_int (2 ^ p)" by (simp add: powr_realpow)
  finally have "round_even (v / u) \<le> round_even (of_int (2 ^ p))" by (rule round_even_mono)
  then have "round_even (v / u) \<le> 2 ^ p" by (simp only: round_even_of_int)
  then have "real_of_int (round_even (v / u)) \<le> 2 ^ p"
    by (metis of_int_le_iff of_int_numeral of_int_power)
  then have "u * real_of_int (round_even (v / u)) \<le> u * 2 ^ p" using u by simp
  also have "\<dots> = 2 powr real_of_int (e + 1)"
    by (simp add: u_def powr_add [symmetric] powr_realpow [symmetric])
  finally show ?thesis unfolding float_round_pos [OF assms] e_def [symmetric] u_def [symmetric] .
qed

lemma float_round_lower:
  assumes "0 < v" "emin \<le> \<lfloor>log 2 v\<rfloor>" "0 < p"
  shows "2 powr real_of_int \<lfloor>log 2 v\<rfloor> \<le> float_round p emin v"
proof -
  define e where "e = \<lfloor>log 2 v\<rfloor>"
  define u where "u = 2 powr real_of_int (e - int p + 1)"
  have e: "max \<lfloor>log 2 v\<rfloor> emin = e" using assms(2) by (simp add: e_def)
  have u: "0 < u" by (simp add: u_def)
  have "u * 2 ^ (p - 1) = 2 powr real_of_int (e - int p + 1) * 2 powr real (p - 1)"
    by (simp add: u_def powr_realpow)
  also have "\<dots> = 2 powr real_of_int e"
    using assms(3) by (simp add: powr_add [symmetric] of_nat_diff)
  finally have ue: "u * 2 ^ (p - 1) = 2 powr real_of_int e" .
  have "2 powr real_of_int e \<le> v"
    using assms(1) floor_log_eq_powr_iff [of v 2 e] by (simp add: e_def)
  then have "of_int (2 ^ (p - 1)) \<le> v / u" using u ue by (simp add: field_simps)
  then have "round_even (of_int (2 ^ (p - 1))) \<le> round_even (v / u)" by (rule round_even_mono)
  then have "2 ^ (p - 1) \<le> round_even (v / u)" by (simp only: round_even_of_int)
  then have "(2 :: real) ^ (p - 1) \<le> real_of_int (round_even (v / u))"
    by (metis of_int_le_iff of_int_numeral of_int_power)
  then have "u * 2 ^ (p - 1) \<le> u * real_of_int (round_even (v / u))" using u by simp
  then have "2 powr real_of_int e \<le> u * real_of_int (round_even (v / u))"
    unfolding ue .
  then show ?thesis
    unfolding float_round_pos [OF assms(1)] e u_def [symmetric] unfolding e_def .
qed

lemma float_round_mono_pos:
  assumes "0 < x" "x \<le> y" "0 < p"
  shows "float_round p emin x \<le> float_round p emin y"
proof -
  have y: "0 < y" using assms by simp
  define ex where "ex = max \<lfloor>log 2 x\<rfloor> emin"
  define ey where "ey = max \<lfloor>log 2 y\<rfloor> emin"
  have "log 2 x \<le> log 2 y" using assms by simp
  then have "\<lfloor>log 2 x\<rfloor> \<le> \<lfloor>log 2 y\<rfloor>" by (rule floor_mono)
  then have le: "ex \<le> ey" unfolding ex_def ey_def by simp
  show ?thesis
  proof (cases "ex = ey")
    case True
    define u where "u = 2 powr real_of_int (ex - int p + 1)"
    have u: "0 < u" by (simp add: u_def)
    have "x / u \<le> y / u" using assms(2) u by (simp add: divide_right_mono)
    then have "round_even (x / u) \<le> round_even (y / u)" by (rule round_even_mono)
    then have "u * real_of_int (round_even (x / u)) \<le> u * real_of_int (round_even (y / u))"
      using u by simp
    then show ?thesis
      unfolding float_round_pos [OF assms(1)] float_round_pos [OF y] ex_def [symmetric]
        ey_def [symmetric] True [symmetric] u_def [symmetric] .
  next
    case False
    then have lt: "ex < ey" using le by simp
    then have "emin < ey" unfolding ex_def by simp
    then have ny: "emin \<le> \<lfloor>log 2 y\<rfloor>" "ey = \<lfloor>log 2 y\<rfloor>" unfolding ey_def by simp_all
    have "float_round p emin x \<le> 2 powr real_of_int (ex + 1)"
      unfolding ex_def by (rule float_round_upper [OF assms(1)])
    also have "\<dots> \<le> 2 powr real_of_int ey" using lt by simp
    also have "\<dots> \<le> float_round p emin y"
      unfolding ny(2) by (rule float_round_lower [OF y ny(1) assms(3)])
    finally show ?thesis .
  qed
qed

lemma float_round_mono:
  assumes "x \<le> y" "0 < p"
  shows "float_round p emin x \<le> float_round p emin y"
proof -
  consider "0 < x" | "x \<le> 0" "0 \<le> y" | "y < 0" using assms(1) by linarith
  then show ?thesis
  proof cases
    case 1
    then show ?thesis using assms by (rule float_round_mono_pos)
  next
    case 2
    have "0 \<le> float_round p emin (- x)" using 2(1) by (intro float_round_nonneg) simp
    then have "float_round p emin x \<le> 0" by (simp add: float_round_minus)
    also have "0 \<le> float_round p emin y" using 2(2) by (rule float_round_nonneg)
    finally show ?thesis .
  next
    case 3
    then have "float_round p emin (- y) \<le> float_round p emin (- x)"
      using assms by (intro float_round_mono_pos) simp_all
    then show ?thesis by (simp add: float_round_minus)
  qed
qed

text \<open>A number of the format is not changed.\<close>

lemma float_round_representable_pos:
  assumes "0 < m" "m < 2 ^ p" "emin - int p + 1 \<le> k"
  shows "float_round p emin (of_int m * 2 powr real_of_int k) = of_int m * 2 powr real_of_int k"
proof -
  define v where "v = of_int m * 2 powr real_of_int k"
  have v: "0 < v" using assms(1) by (simp add: v_def)
  define e where "e = max \<lfloor>log 2 v\<rfloor> emin"
  define j where "j = e - int p + 1"
  have "2 powr real_of_int \<lfloor>log 2 v\<rfloor> \<le> v"
    using v floor_log_eq_powr_iff [of v 2 "\<lfloor>log 2 v\<rfloor>"] by simp
  also have "v < 2 ^ p * 2 powr real_of_int k"
    unfolding v_def using assms(2)
    by (intro mult_strict_right_mono) (metis of_int_less_iff of_int_numeral of_int_power, simp)
  also have "\<dots> = 2 powr real_of_int (int p + k)"
    by (simp add: powr_add powr_realpow)
  finally have "\<lfloor>log 2 v\<rfloor> < int p + k" by simp
  then have "e < int p + k" using assms(3) unfolding e_def by simp
  then have jk: "j \<le> k" unfolding j_def by simp
  have "v / 2 powr real_of_int j = of_int m * 2 powr real_of_int (k - j)"
    by (simp add: v_def powr_diff)
  also have "2 powr real_of_int (k - j) = 2 ^ nat (k - j)"
    using jk by (subst powr_real_of_int) simp_all
  also have "of_int m * 2 ^ nat (k - j) = real_of_int (m * 2 ^ nat (k - j))" by simp
  finally have q: "v / 2 powr real_of_int j = real_of_int (m * 2 ^ nat (k - j))" .
  have "float_round p emin v = 2 powr real_of_int j * (v / 2 powr real_of_int j)"
    unfolding float_round_pos [OF v] e_def [symmetric] j_def [symmetric]
    unfolding q round_even_of_int ..
  then show ?thesis unfolding v_def by simp
qed

lemma float_round_representable:
  assumes "\<bar>m\<bar> < 2 ^ p" "emin - int p + 1 \<le> k"
  shows "float_round p emin (of_int m * 2 powr real_of_int k) = of_int m * 2 powr real_of_int k"
proof -
  consider "0 < m" | "m = 0" | "m < 0" by linarith
  then show ?thesis
  proof cases
    case 1
    then show ?thesis using assms by (intro float_round_representable_pos) simp_all
  next
    case 2
    then show ?thesis by simp
  next
    case 3
    then have "float_round p emin (of_int (- m) * 2 powr real_of_int k)
        = of_int (- m) * 2 powr real_of_int k"
      using assms by (intro float_round_representable_pos) simp_all
    then show ?thesis using float_round_minus [of p emin "of_int m * 2 powr real_of_int k"] by simp
  qed
qed

lemma float_round_evalI:
  assumes "0 < v" "2 powr real_of_int e \<le> v" "v < 2 powr real_of_int (e + 1)" "emin \<le> e"
    and "real_of_int m - 1 / 2 < v / 2 powr real_of_int (e - int p + 1)"
    and "v / 2 powr real_of_int (e - int p + 1) < real_of_int m + 1 / 2"
  shows "float_round p emin v = real_of_int m * 2 powr real_of_int (e - int p + 1)"
  unfolding float_round_eval [OF assms(1-4)] round_even_eqI [OF assms(5,6)] by simp

lemma float_round_eval_tieI:
  assumes "0 < v" "2 powr real_of_int e \<le> v" "v < 2 powr real_of_int (e + 1)" "emin \<le> e"
    and "v / 2 powr real_of_int (e - int p + 1) = real_of_int f + 1 / 2"
  shows "float_round p emin v =
     real_of_int (if even f then f else f + 1) * 2 powr real_of_int (e - int p + 1)"
proof -
  have "\<lfloor>real_of_int f + 1 / 2 :: real\<rfloor> = f" by linarith
  then have "round_even (real_of_int f + 1 / 2) = (if even f then f else f + 1)"
    by (simp add: round_even_def Let_def)
  then show ?thesis unfolding float_round_eval [OF assms(1-4)] assms(5) by simp
qed

lemma float_round_sqrt_evalI:
  assumes "0 < q" "(2 powr real_of_int e)\<^sup>2 \<le> q" "q < (2 powr real_of_int (e + 1))\<^sup>2"
    and "emin \<le> e" "0 < m"
    and "((real_of_int m - 1 / 2) * 2 powr real_of_int (e - int p + 1))\<^sup>2 < q"
    and "q < ((real_of_int m + 1 / 2) * 2 powr real_of_int (e - int p + 1))\<^sup>2"
  shows "float_round p emin (sqrt q) = real_of_int m * 2 powr real_of_int (e - int p + 1)"
proof (rule float_round_evalI)
  define u where "u = 2 powr real_of_int (e - int p + 1)"
  have u: "0 < u" by (simp add: u_def)
  show "0 < sqrt q" using assms(1) by simp
  show "2 powr real_of_int e \<le> sqrt q" using assms(2) by (rule real_le_rsqrt)
  show "sqrt q < 2 powr real_of_int (e + 1)" using assms(3) by (intro real_less_lsqrt) simp_all
  show "emin \<le> e" by (rule assms(4))
  have "(real_of_int m - 1 / 2) * u < sqrt q"
    using assms(6) unfolding u_def by (rule real_less_rsqrt)
  then show "real_of_int m - 1 / 2 < sqrt q / u" using u by (simp add: field_simps)
  have "0 \<le> (real_of_int m + 1 / 2) * u" using assms(5) u by simp
  then have "sqrt q < (real_of_int m + 1 / 2) * u"
    using assms(7) unfolding u_def by (intro real_less_lsqrt) simp_all
  then show "sqrt q / u < real_of_int m + 1 / 2" using u by (simp add: field_simps)
qed

text \<open>The two formats of the code.\<close>

lemma fl64_0 [simp]: "fl64 0 = 0"
  by (simp add: fl64_def)

lemma fl32_0 [simp]: "fl32 0 = 0"
  by (simp add: fl32_def)

lemma fl64_minus [simp]: "fl64 (- v) = - fl64 v"
  unfolding fl64_def by (rule float_round_minus)

lemma fl64_mono: "x \<le> y \<Longrightarrow> fl64 x \<le> fl64 y"
  unfolding fl64_def by (rule float_round_mono) simp_all

lemma fl32_mono: "x \<le> y \<Longrightarrow> fl32 x \<le> fl32 y"
  unfolding fl32_def by (rule float_round_mono) simp_all

lemma fl64_nonneg: "0 \<le> v \<Longrightarrow> 0 \<le> fl64 v"
  unfolding fl64_def by (rule float_round_nonneg)

lemma fl32_nonneg: "0 \<le> v \<Longrightarrow> 0 \<le> fl32 v"
  unfolding fl32_def by (rule float_round_nonneg)

text \<open>Integers and dyadic fractions with a short numerator are numbers of the format.\<close>

lemma fl64_dyadic:
  assumes "\<bar>m\<bar> < 2 ^ 53" "k \<le> 1074"
  shows "fl64 (real_of_int m / 2 ^ k) = real_of_int m / 2 ^ k"
proof -
  have "real_of_int m / 2 ^ k = real_of_int m * 2 powr real_of_int (- int k)"
    by (simp add: powr_minus powr_realpow field_simps)
  moreover have "float_round 53 (- 1022) (real_of_int m * 2 powr real_of_int (- int k))
      = real_of_int m * 2 powr real_of_int (- int k)"
    using assms by (intro float_round_representable) simp_all
  ultimately show ?thesis by (simp add: fl64_def)
qed

lemma fl32_dyadic:
  assumes "\<bar>m\<bar> < 2 ^ 24" "k \<le> 149"
  shows "fl32 (real_of_int m / 2 ^ k) = real_of_int m / 2 ^ k"
proof -
  have "real_of_int m / 2 ^ k = real_of_int m * 2 powr real_of_int (- int k)"
    by (simp add: powr_minus powr_realpow field_simps)
  moreover have "float_round 24 (- 126) (real_of_int m * 2 powr real_of_int (- int k))
      = real_of_int m * 2 powr real_of_int (- int k)"
    using assms by (intro float_round_representable) simp_all
  ultimately show ?thesis by (simp add: fl32_def)
qed

lemma fl64_of_int: "\<bar>m\<bar> < 2 ^ 53 \<Longrightarrow> fl64 (real_of_int m) = real_of_int m"
  using fl64_dyadic [of m 0] by simp

lemma fl32_of_int: "\<bar>m\<bar> < 2 ^ 24 \<Longrightarrow> fl32 (real_of_int m) = real_of_int m"
  using fl32_dyadic [of m 0] by simp

lemma fl64_of_nat: "n < 2 ^ 53 \<Longrightarrow> fl64 (real n) = real n"
  using fl64_of_int [of "int n"] by simp

lemma fl64_numeral [simp]: "numeral n < (2 :: int) ^ 53 \<Longrightarrow> fl64 (numeral n) = numeral n"
  using fl64_of_int [of "numeral n"] by simp

lemma fl32_numeral [simp]: "numeral n < (2 :: int) ^ 24 \<Longrightarrow> fl32 (numeral n) = numeral n"
  using fl32_of_int [of "numeral n"] by simp

lemma fl64_1 [simp]: "fl64 1 = 1"
  using fl64_of_int [of 1] by simp

lemma fl32_1 [simp]: "fl32 1 = 1"
  using fl32_of_int [of 1] by simp

text \<open>The decimal literals of the source.\<close>

lemma fl64_1_4: "fl64 (1 / 4) = 1 / 4"
  using float_round_evalI [where p = 53 and emin = "- 1022" and v = "1 / 4" and e = "- 2"
      and m = 4503599627370496]
  by (simp add: fl64_def powr_neg_numeral)

lemma fl64_3_10: "fl64 (3 / 10) = 5404319552844595 / 18014398509481984"
  using float_round_evalI [where p = 53 and emin = "- 1022" and v = "3 / 10" and e = "- 2"
      and m = 5404319552844595]
  by (simp add: fl64_def powr_neg_numeral)

lemma fl64_13_10: "fl64 (13 / 10) = 5854679515581645 / 4503599627370496"
  using float_round_evalI [where p = 53 and emin = "- 1022" and v = "13 / 10" and e = 0
      and m = 5854679515581645]
  by (simp add: fl64_def powr_neg_numeral)

lemma fl64_7_20: "fl64 (7 / 20) = 3152519739159347 / 9007199254740992"
  using float_round_evalI [where p = 53 and emin = "- 1022" and v = "7 / 20" and e = "- 2"
      and m = 6305039478318694]
  by (simp add: fl64_def powr_neg_numeral)

lemma fl64_2_5: "fl64 (2 / 5) = 3602879701896397 / 9007199254740992"
  using float_round_evalI [where p = 53 and emin = "- 1022" and v = "2 / 5" and e = "- 2"
      and m = 7205759403792794]
  by (simp add: fl64_def powr_neg_numeral)

lemma fl64_1_10: "fl64 (1 / 10) = 3602879701896397 / 36028797018963968"
  using float_round_evalI [where p = 53 and emin = "- 1022" and v = "1 / 10" and e = "- 4"
      and m = 7205759403792794]
  by (simp add: fl64_def powr_neg_numeral)

text \<open>A store into a \<^verbatim>\<open>Float32Array\<close> rounds: the double 0.1 becomes
  0.100000001490116119384765625.\<close>

lemma fl32_tenth: "fl32 (3602879701896397 / 36028797018963968) = 13421773 / 134217728"
  using float_round_evalI [where p = 24 and emin = "- 126" and v = "3602879701896397 / 36028797018963968" and e = "- 4"
      and m = 13421773]
  by (simp add: fl32_def powr_neg_numeral)

text \<open>The relative error of one rounding, and how it adds up through the operations of
  the ellipse distance.\<close>

lemma round_even_error: "\<bar>real_of_int (round_even r) - r\<bar> \<le> 1 / 2"
proof -
  have "real_of_int \<lfloor>r\<rfloor> \<le> r" "r < real_of_int \<lfloor>r\<rfloor> + 1" by linarith+
  then show ?thesis by (auto simp: round_even_def Let_def abs_le_iff)
qed

lemma float_round_rel_error_pos:
  assumes "2 powr real_of_int emin \<le> v" "0 < p"
  shows "\<bar>float_round p emin v - v\<bar> \<le> 2 powr (- real p) * v"
proof -
  have "0 < 2 powr real_of_int emin" by simp
  then have v: "0 < v" using assms(1) by (rule less_le_trans)
  define e where "e = \<lfloor>log 2 v\<rfloor>"
  define u where "u = 2 powr real_of_int (e - int p + 1)"
  have u: "0 < u" by (simp add: u_def)
  have "real_of_int emin \<le> log 2 v" using assms(1) v by (simp add: le_log_iff)
  then have "emin \<le> e" unfolding e_def by (simp add: le_floor_iff)
  then have m: "max \<lfloor>log 2 v\<rfloor> emin = e" by (simp add: e_def)
  have lo: "2 powr real_of_int e \<le> v"
    using v floor_log_eq_powr_iff [of v 2 e] by (simp add: e_def)
  have fr: "float_round p emin v = u * real_of_int (round_even (v / u))"
    unfolding float_round_pos [OF v] m u_def ..
  have "float_round p emin v - v = u * (real_of_int (round_even (v / u)) - v / u)"
    unfolding fr using u by (simp add: field_simps)
  then have "\<bar>float_round p emin v - v\<bar> = u * \<bar>real_of_int (round_even (v / u)) - v / u\<bar>"
    using u by (simp add: abs_mult)
  also have "\<dots> \<le> u * (1 / 2)" using u round_even_error [of "v / u"] by (intro mult_left_mono) simp_all
  also have "u * (1 / 2) = 2 powr (- real p) * 2 powr real_of_int e"
  proof -
    have "real_of_int (e - int p + 1) = - real p + real_of_int e + 1" by simp
    then have "u = 2 powr (- real p) * 2 powr real_of_int e * 2 powr 1"
      unfolding u_def by (simp only: powr_add)
    then show ?thesis by simp
  qed
  also have "\<dots> \<le> 2 powr (- real p) * v" using lo by (intro mult_left_mono) simp_all
  finally show ?thesis .
qed

lemma fl64_rel_error:
  assumes "1 / 2 ^ 1022 \<le> v"
  shows "\<bar>fl64 v - v\<bar> \<le> v / 2 ^ 53"
  using float_round_rel_error_pos [of "- 1022" v 53] assms
  by (simp add: fl64_def powr_neg_numeral)

lemma close_to_refl: "0 \<le> e \<Longrightarrow> 0 \<le> a \<Longrightarrow> close_to e a a"
  by (simp add: close_to_def)

lemma close_to_bounds:
  assumes "close_to e a b"
  shows "a * (1 - e) \<le> b" "b \<le> a * (1 + e)"
  using assms by (simp_all add: close_to_def abs_le_iff algebra_simps)

lemma close_to_zero: "close_to e 0 b \<Longrightarrow> b = 0"
  by (simp add: close_to_def)

lemma close_to_weaken:
  assumes "close_to e a b" "e \<le> e'" "0 \<le> a"
  shows "close_to e' a b"
proof -
  have "e * a \<le> e' * a" using assms(2,3) by (rule mult_right_mono)
  then show ?thesis using assms(1) by (simp add: close_to_def)
qed

text \<open>A number close to a quantity that is zero or not too small is zero or normal.\<close>

lemma close_to_normal:
  assumes "close_to e a b" "e \<le> 1 / 2" "a = 0 \<or> l \<le> a" "1 / 2 ^ 1022 \<le> l / 2"
  shows "b = 0 \<or> 1 / 2 ^ 1022 \<le> b"
proof (cases "a = 0")
  case True
  then show ?thesis using assms(1) by (simp add: close_to_zero)
next
  case False
  then have l: "l \<le> a" using assms(3) by simp
  have "0 < l" using assms(4) by (simp add: field_simps)
  then have a: "0 < a" using l by simp
  have "a * (1 - e) \<le> b" using assms(1) by (rule close_to_bounds)
  moreover have "a * (1 / 2) \<le> a * (1 - e)" using assms(2) a by (intro mult_left_mono) simp_all
  ultimately have "l / 2 \<le> b" using l by simp
  then show ?thesis using assms(4) by simp
qed

lemma close_to_fl64:
  assumes "close_to e a b" "0 \<le> a" "0 \<le> e" "b = 0 \<or> 1 / 2 ^ 1022 \<le> b"
    and "e + (1 + e) / 2 ^ 53 \<le> e'"
  shows "close_to e' a (fl64 b)"
proof (cases "b = 0")
  case True
  have "e \<le> e'" using assms(3,5) by (simp add: field_simps add_increasing2)
  then show ?thesis using assms(1,2) True by (simp add: close_to_weaken)
next
  case False
  then have n: "1 / 2 ^ 1022 \<le> b" using assms(4) by simp
  have "b \<le> a * (1 + e)" using assms(1) by (rule close_to_bounds)
  then have "b / 2 ^ 53 \<le> a * (1 + e) / 2 ^ 53" by (rule divide_right_mono) simp
  moreover have "\<bar>fl64 b - b\<bar> \<le> b / 2 ^ 53" using n by (rule fl64_rel_error)
  ultimately have r: "\<bar>fl64 b - b\<bar> \<le> a * (1 + e) / 2 ^ 53" by simp
  have c: "\<bar>b - a\<bar> \<le> e * a" using assms(1) by (simp add: close_to_def)
  have "\<bar>fl64 b - a\<bar> \<le> \<bar>fl64 b - b\<bar> + \<bar>b - a\<bar>" by simp
  also have "\<dots> \<le> a * (1 + e) / 2 ^ 53 + e * a" using r c by (rule add_mono)
  also have "\<dots> = (e + (1 + e) / 2 ^ 53) * a" by (simp add: algebra_simps)
  also have "\<dots> \<le> e' * a" using assms(5,2) by (rule mult_right_mono)
  finally show ?thesis by (simp add: close_to_def)
qed

lemma close_to_scale:
  assumes "close_to e a b" "0 \<le> k"
  shows "close_to e (k * a) (k * b)"
proof -
  have "\<bar>k * b - k * a\<bar> = k * \<bar>b - a\<bar>"
    using assms(2) by (simp add: abs_mult right_diff_distrib [symmetric])
  also have "\<dots> \<le> k * (e * a)"
    using assms by (intro mult_left_mono) (simp_all add: close_to_def)
  finally show ?thesis by (simp add: close_to_def mult.left_commute)
qed

lemma close_to_divide:
  assumes "close_to e c d" "0 < c" "0 \<le> e" "e < 1" "0 \<le> n" "e / (1 - e) \<le> e'"
  shows "close_to e' (n / c) (n / d)"
proof -
  have lo: "c * (1 - e) \<le> d" using assms(1) by (rule close_to_bounds)
  have pos: "0 < c * (1 - e)" using assms(2,4) by simp
  then have d: "0 < d" using lo by simp
  have "n / d - n / c = n * (c - d) / (c * d)"
    using assms(2) d by (simp add: field_simps)
  then have "\<bar>n / d - n / c\<bar> = n * \<bar>d - c\<bar> / (c * d)"
    using assms(2,5) d by (simp add: abs_mult abs_minus_commute)
  also have "\<dots> \<le> n * (e * c) / (c * d)"
    using assms(1,2,5) d
    by (intro divide_right_mono mult_left_mono) (simp_all add: close_to_def)
  also have "\<dots> = n * e / d" using assms(2) by simp
  also have "\<dots> \<le> n * e / (c * (1 - e))"
    using lo pos assms(3,5) by (intro divide_left_mono) simp_all
  also have "\<dots> = e / (1 - e) * (n / c)" by (simp add: ac_simps)
  also have "\<dots> \<le> e' * (n / c)"
    using assms(2,5,6) by (intro mult_right_mono) simp_all
  finally show ?thesis by (simp add: close_to_def)
qed

lemma close_to_square:
  assumes "close_to e a b" "0 \<le> a" "0 \<le> e" "2 * e + e * e \<le> e'"
  shows "close_to e' (a * a) (b * b)"
proof -
  have b: "a * (1 - e) \<le> b" "b \<le> a * (1 + e)" using assms(1) by (rule close_to_bounds)+
  have "\<bar>b\<bar> \<le> a * (1 + e)"
  proof -
    have "- (a * (1 + e)) \<le> a * (1 - e)" using assms(2,3) by (simp add: algebra_simps)
    then show ?thesis using b by (simp add: abs_le_iff)
  qed
  then have "\<bar>b + a\<bar> \<le> a * (2 + e)" using assms(2) by (simp add: abs_le_iff algebra_simps)
  moreover have d: "\<bar>b - a\<bar> \<le> e * a" using assms(1) by (simp add: close_to_def)
  ultimately have "\<bar>b + a\<bar> * \<bar>b - a\<bar> \<le> a * (2 + e) * (e * a)"
    by (intro mult_mono) (use assms(2,3) in simp_all)
  moreover have "b * b - a * a = (b + a) * (b - a)" by (simp add: algebra_simps)
  ultimately have "\<bar>b * b - a * a\<bar> \<le> a * (2 + e) * (e * a)" by (simp add: abs_mult)
  also have "\<dots> = (2 * e + e * e) * (a * a)" by (simp add: algebra_simps)
  also have "\<dots> \<le> e' * (a * a)" using assms(4) by (intro mult_right_mono) simp_all
  finally show ?thesis by (simp add: close_to_def)
qed

lemma close_to_add:
  assumes "close_to e a b" "close_to e c d"
  shows "close_to e (a + c) (b + d)"
proof -
  have "\<bar>b + d - (a + c)\<bar> \<le> \<bar>b - a\<bar> + \<bar>d - c\<bar>" by simp
  also have "\<dots> \<le> e * a + e * c" using assms by (intro add_mono) (simp_all add: close_to_def)
  finally show ?thesis by (simp add: close_to_def algebra_simps)
qed

lemma close_to_sqrt:
  assumes "close_to e a b" "0 \<le> a" "0 \<le> b"
  shows "close_to e (sqrt a) (sqrt b)"
proof (cases "a = 0")
  case True
  then show ?thesis using assms(1) by (simp add: close_to_def)
next
  case False
  then have a: "0 < a" using assms(2) by simp
  then have sa: "0 < sqrt a" by simp
  have sb: "0 \<le> sqrt b" using assms(3) by simp
  have "(sqrt b - sqrt a) * (sqrt b + sqrt a) = b - a"
    using assms(2,3) by (simp add: algebra_simps)
  then have "\<bar>sqrt b - sqrt a\<bar> * (sqrt b + sqrt a) = \<bar>b - a\<bar>"
    using sa sb by (metis abs_mult abs_of_nonneg add_nonneg_nonneg less_imp_le)
  moreover have "\<bar>sqrt b - sqrt a\<bar> * sqrt a \<le> \<bar>sqrt b - sqrt a\<bar> * (sqrt b + sqrt a)"
    using sb by (intro mult_left_mono) simp_all
  ultimately have "\<bar>sqrt b - sqrt a\<bar> * sqrt a \<le> e * a"
    using assms(1) by (simp add: close_to_def)
  also have "e * a = e * sqrt a * sqrt a" using assms(2) by simp
  finally have "\<bar>sqrt b - sqrt a\<bar> \<le> e * sqrt a" using sa by simp
  then show ?thesis by (simp add: close_to_def)
qed

subsection \<open>Pixels and writes\<close>

lemma length_writeRGBA [simp]: "length (writeRGBA b i v) = length b"
  by (simp add: writeRGBA_def)

lemma nth_writeRGBA:
  assumes "k < length b"
  shows "writeRGBA b idx v ! k = (if idx \<le> k \<and> k < idx + 4 then v else b ! k)"
proof (cases "idx \<le> k \<and> k < idx + 4")
  case True
  then consider "k = idx" | "k = idx + 1" | "k = idx + 2" | "k = idx + 3" by arith
  then have "writeRGBA b idx v ! k = v"
    using assms by cases (simp_all add: writeRGBA_def nth_list_update)
  with True show ?thesis by simp
next
  case False
  then have "k \<noteq> idx" "k \<noteq> idx + 1" "k \<noteq> idx + 2" "k \<noteq> idx + 3" by arith+
  then have "writeRGBA b idx v ! k = b ! k"
    by (simp add: writeRGBA_def)
  with False show ?thesis by auto
qed

lemma length_pixel [simp]: "length (pixel b i) = min 4 (length b - i * 4)"
  by (simp add: pixel_def)

lemma pixel_nth: "i * 4 + k < length b \<Longrightarrow> k < 4 \<Longrightarrow> pixel b i ! k = b ! (i * 4 + k)"
  by (simp add: pixel_def)

lemma pixel_expand:
  assumes len: "i * 4 + 4 \<le> length b"
  shows "pixel b i = [b ! (i * 4), b ! (i * 4 + 1), b ! (i * 4 + 2), b ! (i * 4 + 3)]"
proof (rule nth_equalityI)
  show "length (pixel b i) = length [b ! (i * 4), b ! (i * 4 + 1), b ! (i * 4 + 2), b ! (i * 4 + 3)]"
    using len by simp
next
  fix k assume "k < length (pixel b i)"
  then have "k < 4" by simp
  then consider "k = 0" | "k = 1" | "k = 2" | "k = 3" by arith
  then show "pixel b i ! k = [b ! (i * 4), b ! (i * 4 + 1), b ! (i * 4 + 2), b ! (i * 4 + 3)] ! k"
    using len by cases (simp_all add: pixel_nth)
qed

lemma pixel_eq_iff:
  assumes len: "i * 4 + 4 \<le> length b"
  shows "pixel b i = [r, g, bl, a] \<longleftrightarrow>
     b ! (i * 4) = r \<and> b ! (i * 4 + 1) = g \<and> b ! (i * 4 + 2) = bl \<and> b ! (i * 4 + 3) = a"
  by (simp add: pixel_expand [OF len])

lemma pixel_writeRGBA_same:
  "i * 4 + 4 \<le> length b \<Longrightarrow> pixel (writeRGBA b (i * 4) v) i = [v, v, v, v]"
  by (simp add: pixel_eq_iff nth_writeRGBA)

lemma pixel_writeRGBA_other:
  assumes "i \<noteq> j" shows "pixel (writeRGBA b (j * 4) v) i = pixel b i"
proof (rule nth_equalityI)
  show "length (pixel (writeRGBA b (j * 4) v) i) = length (pixel b i)" by simp
next
  fix k assume "k < length (pixel (writeRGBA b (j * 4) v) i)"
  then have k: "k < 4" "i * 4 + k < length b" by auto
  have "\<not> (j * 4 \<le> i * 4 + k \<and> i * 4 + k < j * 4 + 4)" using assms k(1) by arith
  then have "writeRGBA b (j * 4) v ! (i * 4 + k) = b ! (i * 4 + k)"
    using k(2) nth_writeRGBA [of "i * 4 + k" b "j * 4" v] by auto
  then show "pixel (writeRGBA b (j * 4) v) i ! k = pixel b i ! k"
    using k by (simp add: pixel_nth)
qed

lemma buffers_eq_pixelwise:
  assumes la: "length a = n * 4" and lb: "length b = n * 4"
    and px: "\<And>i. i < n \<Longrightarrow> pixel a i = pixel b i"
  shows "a = b"
proof (rule nth_equalityI)
  show "length a = length b" using la lb by simp
next
  fix k assume "k < length a"
  then have k: "k < n * 4" using la by simp
  define i where "i = k div 4"
  define c where "c = k mod 4"
  have kd: "k = i * 4 + c" and c: "c < 4" and i: "i < n"
    using k by (auto simp: i_def c_def)
  have "a ! k = pixel a i ! c"
    using k la kd c by (simp add: pixel_nth)
  also have "\<dots> = pixel b i ! c" using px [OF i] by simp
  also have "\<dots> = b ! k"
    using k lb kd c by (simp add: pixel_nth)
  finally show "a ! k = b ! k" .
qed

lemma index_bound:
  fixes x y w h :: nat
  assumes "x < w" "y < h"
  shows "y * w + x < w * h"
proof -
  have "y * w + x < y * w + w" using assms(1) by simp
  also have "\<dots> = (y + 1) * w" by simp
  also have "\<dots> \<le> h * w" using assms(2) by (intro mult_le_mono1) simp
  finally show ?thesis by (simp add: mult.commute)
qed

lemma pixelIndex_inj:
  fixes x y w :: nat
  assumes "x < w" "x' < w" "y * w + x = y' * w + x'"
  shows "x = x' \<and> y = y'"
proof -
  have "(y * w + x) mod w = x" "(y' * w + x') mod w = x'" using assms(1,2) by simp_all
  moreover have "(y * w + x) div w = y" "(y' * w + x') div w = y'" using assms(1,2) by simp_all
  ultimately show ?thesis using assms(3) by metis
qed

subsection \<open>Loops as folds over pixel lists\<close>

lemma fold_nested:
  "fold (\<lambda>y. fold (\<lambda>x. f x y) xs) ys = fold (\<lambda>(x, y). f x y) (coords xs ys)"
proof (induction ys)
  case Nil
  show ?case by (simp add: coords_def)
next
  case (Cons y ys)
  have "fold (\<lambda>x. f x y) xs = fold (\<lambda>(x, y). f x y) (map (\<lambda>x. (x, y)) xs)"
    by (simp add: fold_map comp_def)
  with Cons show ?case by (simp add: coords_def)
qed

lemma set_coords: "set (coords xs ys) = set xs \<times> set ys"
  by (auto simp: coords_def)

lemma distinct_coords: "distinct xs \<Longrightarrow> distinct ys \<Longrightarrow> distinct (coords xs ys)"
proof (induction ys)
  case Nil
  show ?case by (simp add: coords_def)
next
  case (Cons y ys)
  have "coords xs (y # ys) = map (\<lambda>x. (x, y)) xs @ coords xs ys"
    by (simp add: coords_def)
  moreover have "distinct (map (\<lambda>x. (x, y)) xs)"
    using Cons.prems(1) by (simp add: distinct_map inj_on_def)
  moreover have "set (map (\<lambda>x. (x, y)) xs) \<inter> set (coords xs ys) = {}"
    using Cons.prems(2) by (auto simp: set_coords)
  ultimately show ?case using Cons by simp
qed

lemma set_interior:
  "set (interior w h) = {(x, y). 1 \<le> x \<and> x < w - 1 \<and> 1 \<le> y \<and> y < h - 1}"
  by (auto simp: interior_def set_coords)

lemma distinct_interior: "distinct (interior w h)"
  by (simp add: interior_def distinct_coords)

lemma inj_on_interior: "inj_on (pixelIndex w) (set (interior w h))"
proof (rule inj_onI)
  fix p q assume "p \<in> set (interior w h)" "q \<in> set (interior w h)"
    and eq: "pixelIndex w p = pixelIndex w q"
  then have "fst p < w" "fst q < w" by (auto simp: set_interior)
  with eq have "fst p = fst q \<and> snd p = snd q"
    unfolding pixelIndex_def by (intro pixelIndex_inj) simp_all
  then show "p = q" by (simp add: prod_eq_iff)
qed

lemma fold_length:
  assumes "\<And>k b. length (step k b) = length b"
  shows "length (fold step ks b) = length b"
  by (induction ks arbitrary: b) (simp_all add: assms)

text \<open>A loop whose step \<open>k\<close> touches pixel \<open>ix k\<close> only leaves every other pixel as it was.\<close>

lemma fold_pixel_other:
  assumes other: "\<And>k b. k \<in> set ks \<Longrightarrow> i \<noteq> ix k \<Longrightarrow> pixel (step k b) i = pixel b i"
    and "i \<notin> ix ` set ks"
  shows "pixel (fold step ks b) i = pixel b i"
  using assms
proof (induction ks arbitrary: b)
  case Nil
  show ?case by simp
next
  case (Cons j js)
  have o: "\<And>k b. k \<in> set js \<Longrightarrow> i \<noteq> ix k \<Longrightarrow> pixel (step k b) i = pixel b i"
    by (rule Cons.prems(1)) simp_all
  have n: "i \<notin> ix ` set js" and nj: "i \<noteq> ix j"
    using Cons.prems(2) by auto
  have "pixel (fold step js (step j b)) i = pixel (step j b) i"
    using o n by (rule Cons.IH)
  also have "\<dots> = pixel b i"
    by (rule Cons.prems(1)) (simp_all add: nj)
  finally show ?case by simp
qed

text \<open>And the pixel of step \<open>k\<close> is what that step alone makes of the initial buffer.\<close>

lemma fold_pixel_own:
  assumes len: "\<And>k b. length (step k b) = length b"
    and other: "\<And>k b i. k \<in> set ks \<Longrightarrow> i \<noteq> ix k \<Longrightarrow> pixel (step k b) i = pixel b i"
    and own: "\<And>k b b'. k \<in> set ks \<Longrightarrow> length b = n \<Longrightarrow> length b' = n
                \<Longrightarrow> pixel b (ix k) = pixel b' (ix k)
                \<Longrightarrow> pixel (step k b) (ix k) = pixel (step k b') (ix k)"
    and dist: "distinct ks" and inj: "inj_on ix (set ks)" and mem: "k \<in> set ks"
    and n: "length b = n"
  shows "pixel (fold step ks b) (ix k) = pixel (step k b) (ix k)"
  using other own dist inj mem n
proof (induction ks arbitrary: b)
  case Nil
  then show ?case by simp
next
  case (Cons j js)
  have other': "\<And>k b i. k \<in> set js \<Longrightarrow> i \<noteq> ix k \<Longrightarrow> pixel (step k b) i = pixel b i"
    by (rule Cons.prems(1)) simp_all
  have own': "\<And>k b b'. k \<in> set js \<Longrightarrow> length b = n \<Longrightarrow> length b' = n
                \<Longrightarrow> pixel b (ix k) = pixel b' (ix k)
                \<Longrightarrow> pixel (step k b) (ix k) = pixel (step k b') (ix k)"
    by (rule Cons.prems(2)) simp_all
  have dist': "distinct js" and jnotin: "j \<notin> set js" using Cons.prems(3) by simp_all
  have inj': "inj_on ix (set js)" using Cons.prems(4) by (simp add: inj_on_def)
  have n': "length (step j b) = n" using Cons.prems(6) by (simp add: len)
  show ?case
  proof (cases "k = j")
    case True
    have "ix k \<notin> ix ` set js"
    proof
      assume "ix k \<in> ix ` set js"
      then obtain k' where k': "k' \<in> set js" "ix k' = ix k" by auto
      then have "k' = k" using Cons.prems(4) True by (simp add: inj_on_def)
      with k' True jnotin show False by simp
    qed
    with other' have "pixel (fold step js (step j b)) (ix k) = pixel (step j b) (ix k)"
      by (rule fold_pixel_other)
    with True show ?thesis by simp
  next
    case False
    then have kin: "k \<in> set js" using Cons.prems(5) by simp
    have ne: "ix k \<noteq> ix j"
    proof
      assume "ix k = ix j"
      then have "k = j" using Cons.prems(4) kin by (simp add: inj_on_def)
      with False show False by simp
    qed
    have "pixel (fold step js (step j b)) (ix k) = pixel (step k (step j b)) (ix k)"
      using other' own' dist' inj' kin n' by (rule Cons.IH)
    also have "\<dots> = pixel (step k b) (ix k)"
    proof (rule Cons.prems(2))
      show "k \<in> set (j # js)" using kin by simp
      show "length (step j b) = n" by (rule n')
      show "length b = n" by (rule Cons.prems(6))
      show "pixel (step j b) (ix k) = pixel b (ix k)"
        by (rule Cons.prems(1)) (simp_all add: ne)
    qed
    finally show ?thesis by simp
  qed
qed

subsection \<open>Binary cleanup\<close>

lemma length_thresholdPixel [simp]: "length (thresholdPixel raw i b) = length b"
  by (simp add: thresholdPixel_def Let_def)

lemma length_cleanedMask [simp]: "length (cleanedMask raw w h) = w * h * 4"
  by (simp add: cleanedMask_def fold_length)

lemma pixel_thresholdPixel_other:
  "i \<noteq> j \<Longrightarrow> pixel (thresholdPixel raw j b) i = pixel b i"
  by (simp add: thresholdPixel_def Let_def pixel_writeRGBA_other)

lemma pixel_thresholdPixel_same:
  "i * 4 + 4 \<le> length b \<Longrightarrow>
   pixel (thresholdPixel raw i b) i =
     (if (case rd raw (i * 4 + 3) of Some a \<Rightarrow> a < transparencyThreshold | None \<Rightarrow> False)
      then transparentPx else opaquePx)"
  by (simp add: thresholdPixel_def Let_def pixel_writeRGBA_same transparentPx_def opaquePx_def)

lemma pixel_cleanedMask:
  assumes "i < w * h"
  shows "pixel (cleanedMask raw w h) i =
     (if (case rd raw (i * 4 + 3) of Some a \<Rightarrow> a < transparencyThreshold | None \<Rightarrow> False)
      then transparentPx else opaquePx)"
proof -
  let ?init = "replicate (w * h * 4) (0 :: u8)"
  have "pixel (fold (thresholdPixel raw) [0..<w * h] ?init) ((\<lambda>k. k) i)
        = pixel (thresholdPixel raw i ?init) ((\<lambda>k. k) i)"
  proof (rule fold_pixel_own [where n = "w * h * 4"])
    fix k and b b' :: uint8array
    assume "k \<in> set [0..<w * h]" "length b = w * h * 4" "length b' = w * h * 4"
    then have "k * 4 + 4 \<le> length b" "k * 4 + 4 \<le> length b'" by simp_all
    then show "pixel (thresholdPixel raw k b) k = pixel (thresholdPixel raw k b') k"
      by (simp add: pixel_thresholdPixel_same)
  qed (simp_all add: assms pixel_thresholdPixel_other)
  then show ?thesis using assms by (simp add: cleanedMask_def pixel_thresholdPixel_same)
qed

lemma binaryMask_iff:
  "binaryMask m w h \<longleftrightarrow> length m = w * h * 4 \<and> (\<forall>i < w * h. binaryPx (pixel m i))"
  by (auto simp: binaryMask_def list_all_iff)

lemma binaryMask_cleanedMask: "binaryMask (cleanedMask raw w h) w h"
  by (simp add: binaryMask_iff pixel_cleanedMask binaryPx_def)

lemma binaryMask_alpha:
  assumes "binaryMask m w h" "i < w * h"
  shows "i * 4 + 4 \<le> length m"
    and "rd m (i * 4 + 3) = Some (m ! (i * 4 + 3))"
    and "(m ! (i * 4 + 3) = 0 \<and> pixel m i = transparentPx) \<or>
         (m ! (i * 4 + 3) = 255 \<and> pixel m i = opaquePx)"
proof -
  show len: "i * 4 + 4 \<le> length m" using assms by (simp add: binaryMask_iff)
  then show "rd m (i * 4 + 3) = Some (m ! (i * 4 + 3))" by (simp add: rd_def)
  have "binaryPx (pixel m i)" using assms by (simp add: binaryMask_iff)
  then show "(m ! (i * 4 + 3) = 0 \<and> pixel m i = transparentPx) \<or>
         (m ! (i * 4 + 3) = 255 \<and> pixel m i = opaquePx)"
    using len by (auto simp: binaryPx_def transparentPx_def opaquePx_def pixel_eq_iff)
qed

lemma cleanedMask_binary_id:
  assumes "binaryMask m w h"
  shows "cleanedMask m w h = m"
proof (rule buffers_eq_pixelwise [where n = "w * h"])
  show "length (cleanedMask m w h) = w * h * 4" by simp
  show "length m = w * h * 4" using assms by (simp add: binaryMask_iff)
next
  fix i assume i: "i < w * h"
  from binaryMask_alpha [OF assms i]
  show "pixel (cleanedMask m w h) i = pixel m i"
    using i by (auto simp: pixel_cleanedMask transparencyThreshold_def)
qed

subsection \<open>Edge smoothing\<close>

lemma length_smoothPixel [simp]: "length (smoothPixel m w x y s) = length s"
  by (simp add: smoothPixel_def Let_def split: option.splits)

lemma applyEdgeSmoothing_flat:
  "applyEdgeSmoothing m w h = fold (\<lambda>(x, y). smoothPixel m w x y) (interior w h) m"
  by (simp add: applyEdgeSmoothing_def interior_def fold_nested)

lemma length_applyEdgeSmoothing [simp]: "length (applyEdgeSmoothing m w h) = length m"
  unfolding applyEdgeSmoothing_flat by (rule fold_length) (simp add: split_def)

text \<open>One step of the pass leaves \<open>smoothed\<close> alone or overwrites its own pixel.\<close>

lemma smoothPixel_cases:
  "smoothPixel m w x y s = s \<or>
   ((y * w + x) * 4 + 3 < length m \<and>
    (smoothPixel m w x y s = writeRGBA s ((y * w + x) * 4) 0 \<or>
     smoothPixel m w x y s = writeRGBA s ((y * w + x) * 4) 255))"
proof (cases "rd m ((y * w + x) * 4 + 3)")
  case None
  then show ?thesis by (simp add: smoothPixel_def)
next
  case (Some alpha)
  then have "(y * w + x) * 4 + 3 < length m" by (simp add: rd_def split: if_splits)
  then show ?thesis unfolding smoothPixel_def Let_def Some option.case
    by auto
qed

lemma pixel_smoothPixel_other:
  assumes "i \<noteq> y * w + x"
  shows "pixel (smoothPixel m w x y s) i = pixel s i"
  using smoothPixel_cases [of m w x y s] pixel_writeRGBA_other [OF assms, of s]
  by auto

lemma pixel_smoothPixel_own:
  assumes "length s = length m" "length s' = length m"
    and "pixel s (y * w + x) = pixel s' (y * w + x)"
  shows "pixel (smoothPixel m w x y s) (y * w + x) = pixel (smoothPixel m w x y s') (y * w + x)"
proof (cases "rd m ((y * w + x) * 4 + 3)")
  case None
  then show ?thesis using assms(3) by (simp add: smoothPixel_def)
next
  case (Some alpha)
  then have "(y * w + x) * 4 + 3 < length m" by (simp add: rd_def split: if_splits)
  then have l: "(y * w + x) * 4 + 4 \<le> length s" "(y * w + x) * 4 + 4 \<le> length s'"
    using assms(1,2) by simp_all
  have w: "\<And>v. pixel (writeRGBA s ((y * w + x) * 4) v) (y * w + x)
             = pixel (writeRGBA s' ((y * w + x) * 4) v) (y * w + x)"
    using l by (simp only: pixel_writeRGBA_same)
  show ?thesis unfolding smoothPixel_def Let_def Some option.case
    using assms(3) w by auto
qed

lemma pixel_applyEdgeSmoothing_interior:
  assumes "1 \<le> x" "x < w - 1" "1 \<le> y" "y < h - 1"
  shows "pixel (applyEdgeSmoothing m w h) (y * w + x) = pixel (smoothPixel m w x y m) (y * w + x)"
proof -
  have mem: "(x, y) \<in> set (interior w h)" using assms by (simp add: set_interior)
  have "pixel (fold (\<lambda>(x, y). smoothPixel m w x y) (interior w h) m) (pixelIndex w (x, y))
      = pixel ((\<lambda>(x, y). smoothPixel m w x y) (x, y) m) (pixelIndex w (x, y))"
  proof (rule fold_pixel_own [where n = "length m"])
    fix k :: "nat \<times> nat" and b b' :: uint8array
    assume "length b = length m" "length b' = length m"
      "pixel b (pixelIndex w k) = pixel b' (pixelIndex w k)"
    then show "pixel ((\<lambda>(x, y). smoothPixel m w x y) k b) (pixelIndex w k)
             = pixel ((\<lambda>(x, y). smoothPixel m w x y) k b') (pixelIndex w k)"
      using pixel_smoothPixel_own [of b m b' "snd k" w "fst k"]
      by (simp add: split_def pixelIndex_def)
  next
    fix k :: "nat \<times> nat" and b :: uint8array and i
    assume "i \<noteq> pixelIndex w k"
    then show "pixel ((\<lambda>(x, y). smoothPixel m w x y) k b) i = pixel b i"
      by (simp add: split_def pixelIndex_def pixel_smoothPixel_other)
  qed (simp_all add: split_def distinct_interior inj_on_interior mem)
  then show ?thesis by (simp add: applyEdgeSmoothing_flat pixelIndex_def)
qed

lemma pixel_applyEdgeSmoothing_other:
  assumes "i \<notin> pixelIndex w ` set (interior w h)"
  shows "pixel (applyEdgeSmoothing m w h) i = pixel m i"
  unfolding applyEdgeSmoothing_flat
proof (rule fold_pixel_other [where ix = "pixelIndex w"])
  fix k :: "nat \<times> nat" and b :: uint8array
  assume "i \<noteq> pixelIndex w k"
  then show "pixel ((\<lambda>(x, y). smoothPixel m w x y) k b) i = pixel b i"
    by (simp add: split_def pixelIndex_def pixel_smoothPixel_other)
qed (rule assms)

lemma binaryMask_applyEdgeSmoothing:
  assumes "binaryMask m w h"
  shows "binaryMask (applyEdgeSmoothing m w h) w h"
  unfolding binaryMask_iff
proof (intro conjI allI impI)
  show "length (applyEdgeSmoothing m w h) = w * h * 4"
    using assms by (simp add: binaryMask_iff)
next
  fix i assume i: "i < w * h"
  have len: "i * 4 + 4 \<le> length m" and bin: "binaryPx (pixel m i)"
    using assms i by (simp_all add: binaryMask_iff)
  show "binaryPx (pixel (applyEdgeSmoothing m w h) i)"
  proof (cases "i \<in> pixelIndex w ` set (interior w h)")
    case False
    then show ?thesis using bin by (simp add: pixel_applyEdgeSmoothing_other)
  next
    case True
    then obtain x y where xy: "1 \<le> x" "x < w - 1" "1 \<le> y" "y < h - 1" and ix: "i = y * w + x"
      by (auto simp: set_interior pixelIndex_def)
    have "pixel (applyEdgeSmoothing m w h) i = pixel (smoothPixel m w x y m) i"
      unfolding ix using xy by (rule pixel_applyEdgeSmoothing_interior)
    moreover have "binaryPx (pixel (smoothPixel m w x y m) i)"
      using smoothPixel_cases [of m w x y m] bin len pixel_writeRGBA_same [of i m]
      unfolding ix [symmetric]
      by (auto simp: binaryPx_def transparentPx_def opaquePx_def)
    ultimately show ?thesis by simp
  qed
qed

lemma binaryMask_cleanMaskArtifacts: "binaryMask (cleanMaskArtifacts raw w h) w h"
  unfolding cleanMaskArtifacts_def
  by (rule binaryMask_applyEdgeSmoothing) (rule binaryMask_cleanedMask)

lemma smoothPixel_eval:
  assumes "rd m ((y * w + x) * 4 + 3) = Some alpha" "neighborAlphas m w x y = nb"
  shows "smoothPixel m w x y s =
     (if (alpha = 0 \<or> alpha = 255) \<and> hasOppositeNeighbor alpha nb
      then if (alpha = 0 \<and> jlt (avgNeighbor nb) 64) \<or> (alpha = 255 \<and> jgt (avgNeighbor nb) 191)
           then s
           else if jgt (avgNeighbor nb) 127 then writeRGBA s ((y * w + x) * 4) 255
           else writeRGBA s ((y * w + x) * 4) 0
      else s)"
  unfolding smoothPixel_def Let_def assms option.case by auto

text \<open>In a binary mask the four neighbours of an interior pixel are defined and binary.\<close>

lemma binaryMask_neighbors:
  assumes bm: "binaryMask m w h" and xy: "1 \<le> x" "x < w - 1" "1 \<le> y" "y < h - 1"
  shows "\<exists>a1 a2 a3 a4. neighborAlphas m w x y = [Some a1, Some a2, Some a3, Some a4]
           \<and> (a1 = 0 \<or> a1 = 255) \<and> (a2 = 0 \<or> a2 = 255)
           \<and> (a3 = 0 \<or> a3 = 255) \<and> (a4 = 0 \<or> a4 = 255)"
proof -
  have b: "(y - 1) * w + x < w * h" "(y + 1) * w + x < w * h"
          "y * w + (x - 1) < w * h" "y * w + (x + 1) < w * h"
  proof -
    have "x < w" "x - 1 < w" "x + 1 < w" "y < h" "y - 1 < h" "y + 1 < h" using xy by arith+
    then show "(y - 1) * w + x < w * h" "(y + 1) * w + x < w * h"
          "y * w + (x - 1) < w * h" "y * w + (x + 1) < w * h"
      by (simp_all only: index_bound)
  qed
  show ?thesis
    using binaryMask_alpha(2,3) [OF bm b(1)] binaryMask_alpha(2,3) [OF bm b(2)]
      binaryMask_alpha(2,3) [OF bm b(3)] binaryMask_alpha(2,3) [OF bm b(4)]
    unfolding neighborAlphas_def by blast
qed

lemma avgNeighbor_Some4:
  "avgNeighbor [Some a1, Some a2, Some a3, Some a4]
     = Fin ((real (unat a1) + real (unat a2) + real (unat a3) + real (unat a4)) / 4)"
  by (simp add: avgNeighbor_def jdiv_def)

lemma smoothed_boundary_pixel:
  assumes bm: "binaryMask m w h" and xy: "1 \<le> x" "x < w - 1" "1 \<le> y" "y < h - 1"
    and al: "rd m ((y * w + x) * 4 + 3) = Some alpha"
    and opp: "hasOppositeNeighbor alpha (neighborAlphas m w x y)"
    and avg: "avgNeighbor (neighborAlphas m w x y) = Fin avg"
  shows "pixel (applyEdgeSmoothing m w h) (y * w + x) =
     (if (alpha = 0 \<and> avg < 64) \<or> (alpha = 255 \<and> 191 < avg) then pixel m (y * w + x)
      else if 127 < avg then opaquePx else transparentPx)"
proof -
  define p where "p = y * w + x"
  have p: "p < w * h" unfolding p_def using xy by (intro index_bound) arith+
  note a = binaryMask_alpha [OF bm p]
  have alpha: "alpha = 0 \<or> alpha = 255" using a(2,3) al unfolding p_def by auto
  have wr: "\<And>v. pixel (writeRGBA m (p * 4) v) p = [v, v, v, v]"
    using a(1) by (rule pixel_writeRGBA_same)
  have "pixel (applyEdgeSmoothing m w h) p = pixel (smoothPixel m w x y m) p"
    unfolding p_def using xy by (rule pixel_applyEdgeSmoothing_interior)
  also have "smoothPixel m w x y m =
     (if (alpha = 0 \<and> avg < 64) \<or> (alpha = 255 \<and> 191 < avg) then m
      else if 127 < avg then writeRGBA m (p * 4) 255 else writeRGBA m (p * 4) 0)"
    unfolding p_def using alpha opp avg
    by (subst smoothPixel_eval [OF al refl]) auto
  finally show ?thesis unfolding p_def [symmetric]
    by (simp add: wr opaquePx_def transparentPx_def)
qed

text \<open>Whether and what a step writes depends on \<open>maskData\<close> only.\<close>

lemma smoothPixel_form:
  "(\<forall>s. smoothPixel m w x y s = s) \<or>
   (\<forall>s. smoothPixel m w x y s = writeRGBA s ((y * w + x) * 4) 0) \<or>
   (\<forall>s. smoothPixel m w x y s = writeRGBA s ((y * w + x) * 4) 255)"
proof (cases "rd m ((y * w + x) * 4 + 3)")
  case None
  then show ?thesis by (simp add: smoothPixel_def)
next
  case (Some alpha)
  show ?thesis unfolding smoothPixel_def Let_def Some option.case by auto
qed

lemma writeRGBA_commute:
  assumes "i \<noteq> j"
  shows "writeRGBA (writeRGBA s (i * 4) u) (j * 4) v = writeRGBA (writeRGBA s (j * 4) v) (i * 4) u"
proof (rule nth_equalityI)
  show "length (writeRGBA (writeRGBA s (i * 4) u) (j * 4) v)
      = length (writeRGBA (writeRGBA s (j * 4) v) (i * 4) u)" by simp
next
  fix k assume "k < length (writeRGBA (writeRGBA s (i * 4) u) (j * 4) v)"
  then have k: "k < length s" by simp
  have "\<not> ((i * 4 \<le> k \<and> k < i * 4 + 4) \<and> (j * 4 \<le> k \<and> k < j * 4 + 4))"
    using assms by arith
  then show "writeRGBA (writeRGBA s (i * 4) u) (j * 4) v ! k
           = writeRGBA (writeRGBA s (j * 4) v) (i * 4) u ! k"
    using k by (auto simp: nth_writeRGBA)
qed

lemma smoothPixel_commute:
  assumes "y * w + x \<noteq> y' * w + x'"
  shows "smoothPixel m w x y (smoothPixel m w x' y' s) = smoothPixel m w x' y' (smoothPixel m w x y s)"
  using smoothPixel_form [of m w x y] smoothPixel_form [of m w x' y']
    writeRGBA_commute [OF assms, of s]
  by (elim disjE) simp_all

lemma smoothing_order_irrelevant:
  assumes "mset ps = mset (interior w h)"
  shows "fold (\<lambda>(x, y). smoothPixel m w x y) ps m = applyEdgeSmoothing m w h"
  unfolding applyEdgeSmoothing_flat
proof (rule fold_multiset_equiv [THEN fun_cong, symmetric])
  show "mset (interior w h) = mset ps" using assms by simp
next
  fix p q assume pq: "p \<in> set (interior w h)" "q \<in> set (interior w h)"
  show "(\<lambda>(x, y). smoothPixel m w x y) p \<circ> (\<lambda>(x, y). smoothPixel m w x y) q
      = (\<lambda>(x, y). smoothPixel m w x y) q \<circ> (\<lambda>(x, y). smoothPixel m w x y) p"
  proof (cases "p = q")
    case True
    then show ?thesis by simp
  next
    case False
    then have "pixelIndex w p \<noteq> pixelIndex w q"
      using inj_on_interior [of w h] pq by (auto simp: inj_on_def)
    then have "snd p * w + fst p \<noteq> snd q * w + fst q" by (simp add: pixelIndex_def)
    then show ?thesis
      by (auto simp: split_def fun_eq_iff intro: smoothPixel_commute)
  qed
qed

lemma border_not_interior:
  assumes "x < w" "y < h" "x = 0 \<or> y = 0 \<or> x = w - 1 \<or> y = h - 1"
  shows "y * w + x \<notin> pixelIndex w ` set (interior w h)"
proof
  assume "y * w + x \<in> pixelIndex w ` set (interior w h)"
  then obtain x' y' where i: "1 \<le> x'" "x' < w - 1" "1 \<le> y'" "y' < h - 1"
    and eq: "y * w + x = y' * w + x'"
    by (auto simp: set_interior pixelIndex_def)
  have "x' < w" using i(2) by simp
  with assms(1) eq have "x = x' \<and> y = y'" by (intro pixelIndex_inj) simp_all
  with i assms(3) show False by auto
qed

subsection \<open>Geometric ellipse mask\<close>

lemma nth_update4:
  assumes "k < length b"
  shows "b[i := r, i + 1 := g, i + 2 := c, i + 3 := a] ! k =
     (if k = i then r else if k = i + 1 then g else if k = i + 2 then c
      else if k = i + 3 then a else b ! k)"
  using assms by (simp add: nth_list_update)

lemma pixel_update4_same:
  assumes "i * 4 + 4 \<le> length b"
  shows "pixel (b[i * 4 := r, i * 4 + 1 := g, i * 4 + 2 := c, i * 4 + 3 := a]) i = [r, g, c, a]"
proof -
  have "i * 4 + 4 \<le> length (b[i * 4 := r, i * 4 + 1 := g, i * 4 + 2 := c, i * 4 + 3 := a])"
    using assms by simp
  then show ?thesis using assms
    by (simp only: pixel_eq_iff) (simp add: nth_list_update)
qed

lemma pixel_update4_other:
  assumes "i \<noteq> j"
  shows "pixel (b[j * 4 := r, j * 4 + 1 := g, j * 4 + 2 := c, j * 4 + 3 := a]) i = pixel b i"
proof (rule nth_equalityI)
  show "length (pixel (b[j * 4 := r, j * 4 + 1 := g, j * 4 + 2 := c, j * 4 + 3 := a]) i)
      = length (pixel b i)" by simp
next
  fix k assume "k < length (pixel (b[j * 4 := r, j * 4 + 1 := g, j * 4 + 2 := c, j * 4 + 3 := a]) i)"
  then have k: "k < 4" "i * 4 + k < length b" by auto
  have "i * 4 + k \<noteq> j * 4" "i * 4 + k \<noteq> j * 4 + 1" "i * 4 + k \<noteq> j * 4 + 2"
    "i * 4 + k \<noteq> j * 4 + 3"
    using assms k(1) by arith+
  then have "b[j * 4 := r, j * 4 + 1 := g, j * 4 + 2 := c, j * 4 + 3 := a] ! (i * 4 + k)
      = b ! (i * 4 + k)"
    using k(2) by (simp only: nth_update4) simp
  then show "pixel (b[j * 4 := r, j * 4 + 1 := g, j * 4 + 2 := c, j * 4 + 3 := a]) i ! k
      = pixel b i ! k"
    using k by (simp add: pixel_nth)
qed

lemma length_ellipsePixel [simp]: "length (ellipsePixel fx fy w h x y b) = length b"
  by (simp add: ellipsePixel_def Let_def)

lemma pixel_ellipsePixel_other:
  "i \<noteq> y * w + x \<Longrightarrow> pixel (ellipsePixel fx fy w h x y b) i = pixel b i"
  unfolding ellipsePixel_def Let_def by (rule pixel_update4_other)

lemma pixel_ellipsePixel_same:
  "(y * w + x) * 4 + 4 \<le> length b \<Longrightarrow>
   pixel (ellipsePixel fx fy w h x y b) (y * w + x) =
     [of_int (ellipseAlpha (ellipseDistance fx fy w h x y)),
      of_int (ellipseAlpha (ellipseDistance fx fy w h x y)),
      of_int (ellipseAlpha (ellipseDistance fx fy w h x y)), 255]"
  unfolding ellipsePixel_def Let_def by (rule pixel_update4_same)

lemma set_all_coords: "set (coords [0..<w] [0..<h]) = {(x, y). x < w \<and> y < h}"
  by (auto simp: set_coords)

lemma inj_on_all_coords: "inj_on (pixelIndex w) (set (coords [0..<w] [0..<h]))"
proof (rule inj_onI)
  fix p q assume "p \<in> set (coords [0..<w] [0..<h])" "q \<in> set (coords [0..<w] [0..<h])"
    and eq: "pixelIndex w p = pixelIndex w q"
  then have "fst p < w" "fst q < w" by (auto simp: set_all_coords)
  with eq have "fst p = fst q \<and> snd p = snd q"
    unfolding pixelIndex_def by (intro pixelIndex_inj) simp_all
  then show "p = q" by (simp add: prod_eq_iff)
qed

lemma length_createBackgroundMask_ellipse [simp]:
  "length (createBackgroundMask_ellipse fx fy w h) = w * h * 4"
  unfolding createBackgroundMask_ellipse_def fold_nested
  by (subst fold_length) (simp_all add: split_def)

lemma pixel_createBackgroundMask_ellipse:
  assumes "x < w" "y < h"
  shows "pixel (createBackgroundMask_ellipse fx fy w h) (y * w + x) =
     [of_int (ellipseAlpha (ellipseDistance fx fy w h x y)),
      of_int (ellipseAlpha (ellipseDistance fx fy w h x y)),
      of_int (ellipseAlpha (ellipseDistance fx fy w h x y)), 255]"
proof -
  let ?init = "replicate (w * h * 4) (0 :: u8)"
  let ?step = "\<lambda>(x, y). ellipsePixel fx fy w h x y"
  have mem: "(x, y) \<in> set (coords [0..<w] [0..<h])" using assms by (simp add: set_all_coords)
  have fits: "(y * w + x) * 4 + 4 \<le> w * h * 4" using index_bound [OF assms] by simp
  have "pixel (fold ?step (coords [0..<w] [0..<h]) ?init) (pixelIndex w (x, y))
      = pixel (?step (x, y) ?init) (pixelIndex w (x, y))"
  proof (rule fold_pixel_own [where n = "w * h * 4"])
    fix k :: "nat \<times> nat" and b b' :: uint8array
    assume "k \<in> set (coords [0..<w] [0..<h])" and l: "length b = w * h * 4" "length b' = w * h * 4"
    then have "fst k < w" "snd k < h" by (auto simp: set_all_coords)
    then have "(snd k * w + fst k) * 4 + 4 \<le> w * h * 4" using index_bound [of "fst k" w "snd k" h] by simp
    then show "pixel (?step k b) (pixelIndex w k) = pixel (?step k b') (pixelIndex w k)"
      using l by (simp add: split_def pixelIndex_def pixel_ellipsePixel_same)
  next
    fix k :: "nat \<times> nat" and b :: uint8array and i
    assume "i \<noteq> pixelIndex w k"
    then show "pixel (?step k b) i = pixel b i"
      by (simp add: split_def pixelIndex_def pixel_ellipsePixel_other)
  qed (simp_all add: split_def distinct_coords inj_on_all_coords mem)
  then show ?thesis using fits
    by (simp add: createBackgroundMask_ellipse_def fold_nested pixelIndex_def pixel_ellipsePixel_same)
qed

text \<open>The value of the transition band does not increase with the distance, and stays
  below 256.\<close>

lemma ellipse_band_mono:
  assumes "d \<le> d'"
  shows "fl64 (255 * max 0 (fl64 (fl64 (fl64 1.3 - d') / fl64 0.3)))
       \<le> fl64 (255 * max 0 (fl64 (fl64 (fl64 1.3 - d) / fl64 0.3)))"
proof -
  have pos: "0 < fl64 0.3" by (simp add: fl64_3_10)
  have "fl64 (fl64 1.3 - d') \<le> fl64 (fl64 1.3 - d)" using assms by (intro fl64_mono) simp
  then have "fl64 (fl64 1.3 - d') / fl64 0.3 \<le> fl64 (fl64 1.3 - d) / fl64 0.3"
    using pos by (simp only: divide_right_mono less_imp_le)
  then have "fl64 (fl64 (fl64 1.3 - d') / fl64 0.3) \<le> fl64 (fl64 (fl64 1.3 - d) / fl64 0.3)"
    by (rule fl64_mono)
  then have "255 * max 0 (fl64 (fl64 (fl64 1.3 - d') / fl64 0.3))
      \<le> 255 * max 0 (fl64 (fl64 (fl64 1.3 - d) / fl64 0.3))"
    by (intro mult_left_mono max.mono) simp_all
  then show ?thesis by (rule fl64_mono)
qed

lemma ellipse_band_at_one:
  "fl64 (255 * max 0 (fl64 (fl64 (fl64 1.3 - 1) / fl64 0.3))) = 4486007441326081 / 17592186044416"
proof -
  have b1: "fl64 (1351079888211149 / 4503599627370496) = 1351079888211149 / 4503599627370496"
    using float_round_evalI [where p = 53 and emin = "- 1022" and v = "1351079888211149 / 4503599627370496" and e = "- 2"
        and m = 5404319552844596]
    by (simp add: fl64_def powr_neg_numeral)
  have b2: "fl64 (5404319552844596 / 5404319552844595) = 4503599627370497 / 4503599627370496"
    using float_round_evalI [where p = 53 and emin = "- 1022" and v = "5404319552844596 / 5404319552844595" and e = 0
        and m = 4503599627370497]
    by (simp add: fl64_def powr_neg_numeral)
  have b3: "fl64 (1148417904979476735 / 4503599627370496) = 4486007441326081 / 17592186044416"
    using float_round_evalI [where p = 53 and emin = "- 1022" and v = "1148417904979476735 / 4503599627370496" and e = 7
        and m = 8972014882652162]
    by (simp add: fl64_def powr_neg_numeral)
  show ?thesis
    by (simp add: fl64_13_10 fl64_3_10 b1 b2 b3)
qed

lemma ellipse_band_upper:
  assumes "1 \<le> d"
  shows "fl64 (255 * max 0 (fl64 (fl64 (fl64 1.3 - d) / fl64 0.3))) < 256"
proof -
  have "fl64 (255 * max 0 (fl64 (fl64 (fl64 1.3 - d) / fl64 0.3)))
      \<le> fl64 (255 * max 0 (fl64 (fl64 (fl64 1.3 - 1) / fl64 0.3)))"
    using assms by (rule ellipse_band_mono)
  then show ?thesis unfolding ellipse_band_at_one by simp
qed

lemma ellipse_band_nonneg: "0 \<le> fl64 (255 * max 0 v)"
  by (rule fl64_nonneg) simp

lemma ellipseAlpha_range: "0 \<le> ellipseAlpha d \<and> ellipseAlpha d \<le> 255"
proof -
  have "\<lfloor>fl64 (255 * max 0 (fl64 (fl64 (fl64 1.3 - d) / fl64 0.3)))\<rfloor> \<le> 255" if "1 < d"
  proof -
    have "fl64 (255 * max 0 (fl64 (fl64 (fl64 1.3 - d) / fl64 0.3))) < 256"
      using that by (intro ellipse_band_upper) simp
    then have "\<lfloor>fl64 (255 * max 0 (fl64 (fl64 (fl64 1.3 - d) / fl64 0.3)))\<rfloor> < 256"
      by (simp add: floor_less_iff)
    then show ?thesis by simp
  qed
  moreover have "0 \<le> \<lfloor>fl64 (255 * max 0 (fl64 (fl64 (fl64 1.3 - d) / fl64 0.3)))\<rfloor>"
    using ellipse_band_nonneg by simp
  ultimately show ?thesis by (auto simp: ellipseAlpha_def Let_def)
qed

lemma unat_ellipseAlpha: "unat (of_int (ellipseAlpha d) :: u8) = nat (ellipseAlpha d)"
proof -
  have "0 \<le> ellipseAlpha d" "ellipseAlpha d < 256" using ellipseAlpha_range [of d] by simp_all
  then show ?thesis by (simp add: unat_eq_nat_uint uint_word_of_int)
qed

lemma ellipseAlpha_antimono:
  assumes "d \<le> d'"
  shows "ellipseAlpha d' \<le> ellipseAlpha d"
proof -
  have "\<lfloor>fl64 (255 * max 0 (fl64 (fl64 (fl64 1.3 - d') / fl64 0.3)))\<rfloor>
      \<le> \<lfloor>fl64 (255 * max 0 (fl64 (fl64 (fl64 1.3 - d) / fl64 0.3)))\<rfloor>"
    using assms by (intro floor_mono ellipse_band_mono)
  moreover have "0 \<le> \<lfloor>fl64 (255 * max 0 (fl64 (fl64 (fl64 1.3 - d) / fl64 0.3)))\<rfloor>"
    using ellipse_band_nonneg by simp
  ultimately show ?thesis
    using assms ellipseAlpha_range [of d'] by (auto simp: ellipseAlpha_def Let_def)
qed

text \<open>For a mask of fewer than \<open>2^53\<close> columns and rows, half the width and the offset
  of a column from it are doubles, so the two operations that compute them are exact, and
  the roundings of the distance are those of the radii, the two quotients, the two
  squares, their sum and the square root.\<close>

lemma fl64_half:
  assumes "w < 2 ^ 53"
  shows "fl64 (real w / 2) = real w / 2"
  using fl64_dyadic [of "int w" 1] assms by simp

lemma fl64_offset:
  assumes "w < 2 ^ 53" "x < w"
  shows "fl64 (real x - real w / 2) = real x - real w / 2"
proof -
  have eq: "real x - real w / 2 = real_of_int (2 * int x - int w) / 2 ^ 1"
    by (simp add: field_simps)
  have "\<bar>2 * int x - int w\<bar> < 2 ^ 53" using assms by simp
  then show ?thesis unfolding eq by (intro fl64_dyadic) simp_all
qed

lemma ellipseDistance_formula:
  assumes "w < 2 ^ 53" "h < 2 ^ 53" "x < w" "y < h"
  shows "ellipseDistance fx fy w h x y =
     fl64 (sqrt (fl64
       (fl64 (fl64 ((real x - real w / 2) / fl64 (real w * fl64 fx))
                * fl64 ((real x - real w / 2) / fl64 (real w * fl64 fx)))
        + fl64 (fl64 ((real y - real h / 2) / fl64 (real h * fl64 fy))
                  * fl64 ((real y - real h / 2) / fl64 (real h * fl64 fy))))))"
  unfolding ellipseDistance_def Let_def fl64_half [OF assms(1)] fl64_half [OF assms(2)]
    fl64_offset [OF assms(1,3)] fl64_offset [OF assms(2,4)] ..

lemma ellipse_grey:
  assumes "x < w" "y < h"
  shows "unat (createBackgroundMask_ellipse fx fy w h ! ((y * w + x) * 4))
           = nat (ellipseAlpha (ellipseDistance fx fy w h x y))"
proof -
  have fits: "(y * w + x) * 4 + 4 \<le> length (createBackgroundMask_ellipse fx fy w h)"
    using index_bound [OF assms] by simp
  have "createBackgroundMask_ellipse fx fy w h ! ((y * w + x) * 4)
      = of_int (ellipseAlpha (ellipseDistance fx fy w h x y))"
    using pixel_createBackgroundMask_ellipse [OF assms, of fx fy]
    by (simp only: pixel_eq_iff [OF fits])
  then show ?thesis by (simp only: unat_ellipseAlpha)
qed

lemma ellipse_pixel_value:
  assumes "x < w" "y < h" "ellipseDistance fx fy w h x y = d" "ellipseAlpha d = a"
  shows "pixel (createBackgroundMask_ellipse fx fy w h) (y * w + x)
           = [of_int a, of_int a, of_int a, 255]"
  using pixel_createBackgroundMask_ellipse [OF assms(1,2), of fx fy] unfolding assms(3,4) .

text \<open>The distance and the value of single pixels, each operation evaluated with its
  rounding: a pixel of the transition band, the centre and a corner of the 512 x 512
  mask of \<^verbatim>\<open>unnamed/part_001\<close>; a pixel of its 100 x 100 mask; a pixel on the rim of the
  ellipse in the 180 x 180 mask of \<^verbatim>\<open>api/cv/[id]/route.ts\<close>, and a corner of its
  512 x 512 mask.\<close>

lemma part_512_band_distance: "ellipseDistance 0.25 0.3 512 512 400 256 = 9 / 8"
proof -
  have e1: "fl64 (5404319552844595 / 35184372088832) = 5404319552844595 / 35184372088832"
    using float_round_evalI [where p = 53 and emin = "- 1022" and v = "5404319552844595 / 35184372088832" and e = 7
        and m = 5404319552844595]
    by (simp add: fl64_def powr_neg_numeral)
  have e2: "fl64 (9 / 8) = 9 / 8"
    using float_round_evalI [where p = 53 and emin = "- 1022" and v = "9 / 8" and e = 0
        and m = 5066549580791808]
    by (simp add: fl64_def powr_neg_numeral)
  have e3: "fl64 (81 / 64) = 81 / 64"
    using float_round_evalI [where p = 53 and emin = "- 1022" and v = "81 / 64" and e = 0
        and m = 5699868278390784]
    by (simp add: fl64_def powr_neg_numeral)
  have e4: "fl64 (sqrt (81 / 64)) = 9 / 8"
    using float_round_sqrt_evalI [where p = 53 and emin = "- 1022" and q = "81 / 64" and e = 0
        and m = 5066549580791808]
    by (simp add: fl64_def powr_neg_numeral power2_eq_square)
  show ?thesis
    by (simp add: ellipseDistance_def Let_def fl64_1_4 fl64_3_10 e1 e2 e3 e4)
qed

lemma part_512_band_alpha: "ellipseAlpha (9 / 8) = 148"
proof -
  have a1: "fl64 (788129934789837 / 4503599627370496) = 788129934789837 / 4503599627370496"
    using float_round_evalI [where p = 53 and emin = "- 1022" and v = "788129934789837 / 4503599627370496" and e = "- 3"
        and m = 6305039478318696]
    by (simp add: fl64_def powr_neg_numeral)
  have a2: "fl64 (3152519739159348 / 5404319552844595) = 1313549891316395 / 2251799813685248"
    using float_round_evalI [where p = 53 and emin = "- 1022" and v = "3152519739159348 / 5404319552844595" and e = "- 1"
        and m = 5254199565265580]
    by (simp add: fl64_def powr_neg_numeral)
  have a3: "fl64 (334955222285680725 / 2251799813685248) = 5233675348213761 / 35184372088832"
    using float_round_evalI [where p = 53 and emin = "- 1022" and v = "334955222285680725 / 2251799813685248" and e = 7
        and m = 5233675348213761]
    by (simp add: fl64_def powr_neg_numeral)
  show ?thesis
    by (simp add: ellipseAlpha_def Let_def fl64_13_10 fl64_3_10 a1 a2 a3)
qed

lemma part_512_centre_distance: "ellipseDistance 0.25 0.3 512 512 256 256 = 0"
proof -
  have e1: "fl64 (5404319552844595 / 35184372088832) = 5404319552844595 / 35184372088832"
    using float_round_evalI [where p = 53 and emin = "- 1022" and v = "5404319552844595 / 35184372088832" and e = 7
        and m = 5404319552844595]
    by (simp add: fl64_def powr_neg_numeral)
  show ?thesis
    by (simp add: ellipseDistance_def Let_def fl64_1_4 fl64_3_10 e1)
qed

lemma part_512_centre_alpha: "ellipseAlpha (0) = 255"
proof -
  show ?thesis
    by (simp add: ellipseAlpha_def Let_def fl64_13_10)
qed

lemma part_512_corner_distance: "ellipseDistance 0.25 0.3 512 512 0 0 = 5862372921680625 / 2251799813685248"
proof -
  have e1: "fl64 (5404319552844595 / 35184372088832) = 5404319552844595 / 35184372088832"
    using float_round_evalI [where p = 53 and emin = "- 1022" and v = "5404319552844595 / 35184372088832" and e = 7
        and m = 5404319552844595]
    by (simp add: fl64_def powr_neg_numeral)
  have e2: "fl64 (9007199254740992 / 5404319552844595) = 7505999378950827 / 4503599627370496"
    using float_round_evalI [where p = 53 and emin = "- 1022" and v = "9007199254740992 / 5404319552844595" and e = 0
        and m = 7505999378950827]
    by (simp add: fl64_def powr_neg_numeral)
  have e3: "fl64 (56340026676810200626075283983929 / 20282409603651670423947251286016) = 6254999482459023 / 2251799813685248"
    using float_round_evalI [where p = 53 and emin = "- 1022" and v = "56340026676810200626075283983929 / 20282409603651670423947251286016" and e = 1
        and m = 6254999482459023]
    by (simp add: fl64_def powr_neg_numeral)
  have e4: "fl64 (15262198737200015 / 2251799813685248) = 953887421075001 / 140737488355328"
    using float_round_eval_tieI [where p = 53 and emin = "- 1022" and v = "15262198737200015 / 2251799813685248" and e = 2
        and f = 7631099368600007]
    by (simp add: fl64_def powr_neg_numeral)
  have e5: "fl64 (sqrt (953887421075001 / 140737488355328)) = 5862372921680625 / 2251799813685248"
    using float_round_sqrt_evalI [where p = 53 and emin = "- 1022" and q = "953887421075001 / 140737488355328" and e = 1
        and m = 5862372921680625]
    by (simp add: fl64_def powr_neg_numeral power2_eq_square)
  show ?thesis
    by (simp add: ellipseDistance_def Let_def fl64_1_4 fl64_3_10 e1 e2 e3 e4 e5)
qed

lemma part_512_corner_alpha: "ellipseAlpha (5862372921680625 / 2251799813685248) = 0"
proof -
  show ?thesis
    by (simp add: ellipseAlpha_def Let_def fl64_13_10)
qed

lemma part_100_band_distance: "ellipseDistance 0.25 0.3 100 100 22 50 = 1261007895663739 / 1125899906842624"
proof -
  have e1: "fl64 (135107988821114875 / 4503599627370496) = 30"
    using float_round_evalI [where p = 53 and emin = "- 1022" and v = "135107988821114875 / 4503599627370496" and e = 4
        and m = 8444249301319680]
    by (simp add: fl64_def powr_neg_numeral)
  have e2: "fl64 (28 / 25) = 1261007895663739 / 1125899906842624"
    using float_round_evalI [where p = 53 and emin = "- 1022" and v = "28 / 25" and e = 0
        and m = 5044031582654956]
    by (simp add: fl64_def powr_neg_numeral)
  have e3: "fl64 (1590140912926291263879359460121 / 1267650600228229401496703205376) = 5649315372573551 / 4503599627370496"
    using float_round_evalI [where p = 53 and emin = "- 1022" and v = "1590140912926291263879359460121 / 1267650600228229401496703205376" and e = 0
        and m = 5649315372573551]
    by (simp add: fl64_def powr_neg_numeral)
  have e4: "fl64 (5649315372573551 / 4503599627370496) = 5649315372573551 / 4503599627370496"
    using float_round_evalI [where p = 53 and emin = "- 1022" and v = "5649315372573551 / 4503599627370496" and e = 0
        and m = 5649315372573551]
    by (simp add: fl64_def powr_neg_numeral)
  have e5: "fl64 (sqrt (5649315372573551 / 4503599627370496)) = 1261007895663739 / 1125899906842624"
    using float_round_sqrt_evalI [where p = 53 and emin = "- 1022" and q = "5649315372573551 / 4503599627370496" and e = 0
        and m = 5044031582654956]
    by (simp add: fl64_def powr_neg_numeral power2_eq_square)
  show ?thesis
    by (simp add: ellipseDistance_def Let_def fl64_1_4 fl64_3_10 e1 e2 e3 e4 e5)
qed

lemma part_100_band_alpha: "ellipseAlpha (1261007895663739 / 1125899906842624) = 152"
proof -
  have a1: "fl64 (810647932926689 / 4503599627370496) = 810647932926689 / 4503599627370496"
    using float_round_evalI [where p = 53 and emin = "- 1022" and v = "810647932926689 / 4503599627370496" and e = "- 3"
        and m = 6485183463413512]
    by (simp add: fl64_def powr_neg_numeral)
  have a2: "fl64 (3242591731706756 / 5404319552844595) = 2702159776422297 / 4503599627370496"
    using float_round_evalI [where p = 53 and emin = "- 1022" and v = "3242591731706756 / 5404319552844595" and e = "- 1"
        and m = 5404319552844594]
    by (simp add: fl64_def powr_neg_numeral)
  have a3: "fl64 (689050742987685735 / 4503599627370496) = 5383208929591295 / 35184372088832"
    using float_round_evalI [where p = 53 and emin = "- 1022" and v = "689050742987685735 / 4503599627370496" and e = 7
        and m = 5383208929591295]
    by (simp add: fl64_def powr_neg_numeral)
  show ?thesis
    by (simp add: ellipseAlpha_def Let_def fl64_13_10 fl64_3_10 a1 a2 a3)
qed

lemma cv_180_rim_distance: "ellipseDistance 0.35 0.4 180 180 153 90 = 4503599627370497 / 4503599627370496"
proof -
  have e1: "fl64 (141863388262170615 / 2251799813685248) = 8866461766385663 / 140737488355328"
    using float_round_evalI [where p = 53 and emin = "- 1022" and v = "141863388262170615 / 2251799813685248" and e = 5
        and m = 8866461766385663]
    by (simp add: fl64_def powr_neg_numeral)
  have e2: "fl64 (162129586585337865 / 2251799813685248) = 72"
    using float_round_evalI [where p = 53 and emin = "- 1022" and v = "162129586585337865 / 2251799813685248" and e = 6
        and m = 5066549580791808]
    by (simp add: fl64_def powr_neg_numeral)
  have e3: "fl64 (8866461766385664 / 8866461766385663) = 4503599627370497 / 4503599627370496"
    using float_round_evalI [where p = 53 and emin = "- 1022" and v = "8866461766385664 / 8866461766385663" and e = 0
        and m = 4503599627370497]
    by (simp add: fl64_def powr_neg_numeral)
  have e4: "fl64 (20282409603651679431146506027009 / 20282409603651670423947251286016) = 2251799813685249 / 2251799813685248"
    using float_round_evalI [where p = 53 and emin = "- 1022" and v = "20282409603651679431146506027009 / 20282409603651670423947251286016" and e = 0
        and m = 4503599627370498]
    by (simp add: fl64_def powr_neg_numeral)
  have e5: "fl64 (2251799813685249 / 2251799813685248) = 2251799813685249 / 2251799813685248"
    using float_round_evalI [where p = 53 and emin = "- 1022" and v = "2251799813685249 / 2251799813685248" and e = 0
        and m = 4503599627370498]
    by (simp add: fl64_def powr_neg_numeral)
  have e6: "fl64 (sqrt (2251799813685249 / 2251799813685248)) = 4503599627370497 / 4503599627370496"
    using float_round_sqrt_evalI [where p = 53 and emin = "- 1022" and q = "2251799813685249 / 2251799813685248" and e = 0
        and m = 4503599627370497]
    by (simp add: fl64_def powr_neg_numeral power2_eq_square)
  show ?thesis
    by (simp add: ellipseDistance_def Let_def fl64_7_20 fl64_2_5 e1 e2 e3 e4 e5 e6)
qed

lemma cv_180_rim_alpha: "ellipseAlpha (4503599627370497 / 4503599627370496) = 254"
proof -
  have a1: "fl64 (337769972052787 / 1125899906842624) = 337769972052787 / 1125899906842624"
    using float_round_evalI [where p = 53 and emin = "- 1022" and v = "337769972052787 / 1125899906842624" and e = "- 2"
        and m = 5404319552844592]
    by (simp add: fl64_def powr_neg_numeral)
  have a2: "fl64 (5404319552844592 / 5404319552844595) = 9007199254740987 / 9007199254740992"
    using float_round_evalI [where p = 53 and emin = "- 1022" and v = "5404319552844592 / 5404319552844595" and e = "- 1"
        and m = 9007199254740987]
    by (simp add: fl64_def powr_neg_numeral)
  have a3: "fl64 (2296835809958951685 / 9007199254740992) = 8972014882652155 / 35184372088832"
    using float_round_evalI [where p = 53 and emin = "- 1022" and v = "2296835809958951685 / 9007199254740992" and e = 7
        and m = 8972014882652155]
    by (simp add: fl64_def powr_neg_numeral)
  show ?thesis
    by (simp add: ellipseAlpha_def Let_def fl64_13_10 fl64_3_10 a1 a2 a3)
qed

lemma cv_512_corner_distance: "ellipseDistance 0.35 0.4 512 512 0 0 = 8548914414486751 / 4503599627370496"
proof -
  have e1: "fl64 (3152519739159347 / 17592186044416) = 3152519739159347 / 17592186044416"
    using float_round_evalI [where p = 53 and emin = "- 1022" and v = "3152519739159347 / 17592186044416" and e = 7
        and m = 6305039478318694]
    by (simp add: fl64_def powr_neg_numeral)
  have e2: "fl64 (3602879701896397 / 17592186044416) = 3602879701896397 / 17592186044416"
    using float_round_evalI [where p = 53 and emin = "- 1022" and v = "3602879701896397 / 17592186044416" and e = 7
        and m = 7205759403792794]
    by (simp add: fl64_def powr_neg_numeral)
  have e3: "fl64 (4503599627370496 / 3152519739159347) = 6433713753386423 / 4503599627370496"
    using float_round_evalI [where p = 53 and emin = "- 1022" and v = "4503599627370496 / 3152519739159347" and e = 0
        and m = 6433713753386423]
    by (simp add: fl64_def powr_neg_numeral)
  have e4: "fl64 (4503599627370496 / 3602879701896397) = 5 / 4"
    using float_round_evalI [where p = 53 and emin = "- 1022" and v = "4503599627370496 / 3602879701896397" and e = 0
        and m = 5629499534213120]
    by (simp add: fl64_def powr_neg_numeral)
  have e5: "fl64 (41392672660513614948300360734929 / 20282409603651670423947251286016) = 4595509823847445 / 2251799813685248"
    using float_round_evalI [where p = 53 and emin = "- 1022" and v = "41392672660513614948300360734929 / 20282409603651670423947251286016" and e = 1
        and m = 4595509823847445]
    by (simp add: fl64_def powr_neg_numeral)
  have e6: "fl64 (25 / 16) = 25 / 16"
    using float_round_evalI [where p = 53 and emin = "- 1022" and v = "25 / 16" and e = 0
        and m = 7036874417766400]
    by (simp add: fl64_def powr_neg_numeral)
  have e7: "fl64 (8113947032730645 / 2251799813685248) = 8113947032730645 / 2251799813685248"
    using float_round_evalI [where p = 53 and emin = "- 1022" and v = "8113947032730645 / 2251799813685248" and e = 1
        and m = 8113947032730645]
    by (simp add: fl64_def powr_neg_numeral)
  have e8: "fl64 (sqrt (8113947032730645 / 2251799813685248)) = 8548914414486751 / 4503599627370496"
    using float_round_sqrt_evalI [where p = 53 and emin = "- 1022" and q = "8113947032730645 / 2251799813685248" and e = 0
        and m = 8548914414486751]
    by (simp add: fl64_def powr_neg_numeral power2_eq_square)
  show ?thesis
    by (simp add: ellipseDistance_def Let_def fl64_7_20 fl64_2_5 e1 e2 e3 e4 e5 e6 e7 e8)
qed

lemma cv_512_corner_alpha: "ellipseAlpha (8548914414486751 / 4503599627370496) = 0"
proof -
  show ?thesis
    by (simp add: ellipseAlpha_def Let_def fl64_13_10)
qed

text \<open>The distance of the specification at the same pixels.\<close>

lemma spec_distance_part_512_band: "spec_ellipseDistance 0.25 0.3 512 512 400 256 = 9 / 8"
  unfolding spec_ellipseDistance_def Let_def
  by (rule real_sqrt_unique) (simp_all add: power2_eq_square)

lemma spec_distance_part_100_band: "spec_ellipseDistance 0.25 0.3 100 100 22 50 = 28 / 25"
  unfolding spec_ellipseDistance_def Let_def
  by (rule real_sqrt_unique) (simp_all add: power2_eq_square)

lemma spec_distance_cv_180_rim: "spec_ellipseDistance 0.35 0.4 180 180 153 90 = 1"
  by (simp add: spec_ellipseDistance_def Let_def)

lemma spec_distance_part_512_corner: "1.3 < spec_ellipseDistance 0.25 0.3 512 512 0 0"
  unfolding spec_ellipseDistance_def Let_def
  by (rule real_less_rsqrt) (simp add: power2_eq_square)

lemma spec_distance_cv_512_corner: "1.3 < spec_ellipseDistance 0.35 0.4 512 512 0 0"
  unfolding spec_ellipseDistance_def Let_def
  by (rule real_less_rsqrt) (simp add: power2_eq_square)

text \<open>The offset of a column from the centre is zero or at least one half.\<close>

lemma offset_cases:
  fixes x w :: nat
  shows "\<bar>real x - real w / 2\<bar> = 0 \<or> 1 / 2 \<le> \<bar>real x - real w / 2\<bar>"
proof -
  define k where "k = 2 * int x - int w"
  have eq: "\<bar>real x - real w / 2\<bar> = real_of_int \<bar>k\<bar> / 2"
    by (simp add: k_def field_simps)
  show ?thesis
  proof (cases "k = 0")
    case True
    then show ?thesis unfolding eq by simp
  next
    case False
    then have "1 \<le> \<bar>k\<bar>" by linarith
    then have "1 \<le> real_of_int \<bar>k\<bar>" by linarith
    then show ?thesis unfolding eq by simp
  qed
qed

text \<open>One normalised coordinate: the rounded quotient of the offset by the rounded radius
  is close to the quotient of the real numbers.\<close>

lemma normalized_close:
  fixes x w :: nat
  assumes "x < w" "w < 2 ^ 53" "1 / 2 ^ 100 \<le> f" "f \<le> 2 ^ 100"
  defines "q \<equiv> \<bar>real x - real w / 2\<bar> / (real w * f)"
  shows "close_to (15 / 2 ^ 53) (q * q)
           (fl64 (fl64 ((real x - real w / 2) / fl64 (real w * fl64 f))
                    * fl64 ((real x - real w / 2) / fl64 (real w * fl64 f))))"
    and "q * q = 0 \<or> 1 / 2 ^ 308 \<le> q * q"
    and "((real x - real w / 2) / (real w * f))\<^sup>2 = q * q"
proof -
  define r where "r = fl64 (real w * fl64 f)"
  define ax where "ax = \<bar>real x - real w / 2\<bar>"
  have w: "1 \<le> real w" "real w < 2 ^ 53" using assms(1,2) by simp_all
  have f: "0 < f" using assms(3) by (rule less_le_trans [rotated]) simp
  have wf: "1 / 2 ^ 100 \<le> real w * f" "real w * f \<le> 2 ^ 153"
  proof -
    have "1 * (1 / 2 ^ 100) \<le> real w * f" using w(1) assms(3) by (intro mult_mono) simp_all
    then show "1 / 2 ^ 100 \<le> real w * f" by simp
    have "real w * f \<le> 2 ^ 53 * 2 ^ 100" using w(2) assms(4) f by (intro mult_mono) simp_all
    then show "real w * f \<le> 2 ^ 153" by simp
  qed
  have wfpos: "0 < real w * f" using wf(1) by (rule less_le_trans [rotated]) simp
  have c1: "close_to (1 / 2 ^ 53) f (fl64 f)"
  proof -
    have "1 / 2 ^ 1022 \<le> f" using assms(3) by (rule order_trans [rotated]) simp
    then have "\<bar>fl64 f - f\<bar> \<le> f / 2 ^ 53" by (rule fl64_rel_error)
    then show ?thesis by (simp add: close_to_def)
  qed
  have c2: "close_to (1 / 2 ^ 53) (real w * f) (real w * fl64 f)"
    using c1 by (rule close_to_scale) simp
  have n2: "real w * fl64 f = 0 \<or> 1 / 2 ^ 1022 \<le> real w * fl64 f"
  proof (rule close_to_normal [OF c2])
    show "1 / 2 ^ 53 \<le> (1 / 2 :: real)" by simp
    show "real w * f = 0 \<or> 1 / 2 ^ 100 \<le> real w * f" using wf(1) by (rule disjI2)
    show "1 / 2 ^ 1022 \<le> (1 / 2 ^ 100 / 2 :: real)" by simp
  qed
  have c3: "close_to (3 / 2 ^ 53) (real w * f) r"
    unfolding r_def using c2 _ _ n2 by (rule close_to_fl64) (use wfpos in simp_all)
  have ax: "0 \<le> ax" by (simp add: ax_def)
  have c4: "close_to (4 / 2 ^ 53) (ax / (real w * f)) (ax / r)"
    using c3 wfpos _ _ ax by (rule close_to_divide) simp_all
  have qdef: "q = ax / (real w * f)" by (simp add: q_def ax_def)
  have qcases: "q = 0 \<or> 1 / 2 ^ 154 \<le> q"
  proof (cases "ax = 0")
    case True
    then show ?thesis by (simp add: qdef)
  next
    case False
    then have "1 / 2 \<le> ax" using offset_cases [of x w] by (simp add: ax_def)
    then have "1 / 2 / 2 ^ 153 \<le> ax / (real w * f)"
      using wf(2) wfpos by (intro frac_le) simp_all
    then show ?thesis by (simp add: qdef)
  qed
  have q0: "0 \<le> q" using ax wfpos by (simp add: qdef)
  have n4: "ax / r = 0 \<or> 1 / 2 ^ 1022 \<le> ax / r"
    using c4 [folded qdef] _ qcases by (rule close_to_normal) simp_all
  have c5: "close_to (6 / 2 ^ 53) q (fl64 (ax / r))"
    using c4 [folded qdef] q0 _ n4 by (rule close_to_fl64) simp_all
  have c6: "close_to (13 / 2 ^ 53) (q * q) (fl64 (ax / r) * fl64 (ax / r))"
    using c5 q0 by (rule close_to_square) simp_all
  show qq: "q * q = 0 \<or> 1 / 2 ^ 308 \<le> q * q"
  proof (cases "q = 0")
    case True
    then show ?thesis by simp
  next
    case False
    then have "1 / 2 ^ 154 \<le> q" using qcases by simp
    then have "1 / 2 ^ 154 * (1 / 2 ^ 154) \<le> q * q" by (intro mult_mono) simp_all
    then show ?thesis by simp
  qed
  have n6: "fl64 (ax / r) * fl64 (ax / r) = 0 \<or> 1 / 2 ^ 1022 \<le> fl64 (ax / r) * fl64 (ax / r)"
    using c6 _ qq by (rule close_to_normal) simp_all
  have c7: "close_to (15 / 2 ^ 53) (q * q) (fl64 (fl64 (ax / r) * fl64 (ax / r)))"
    using c6 _ _ n6 by (rule close_to_fl64) (use q0 in simp_all)
  have sgn: "fl64 ((real x - real w / 2) / r) * fl64 ((real x - real w / 2) / r)
      = fl64 (ax / r) * fl64 (ax / r)"
  proof (cases "0 \<le> real x - real w / 2")
    case True
    then show ?thesis by (simp add: ax_def)
  next
    case False
    then have "ax = - (real x - real w / 2)" by (simp add: ax_def)
    then have "ax / r = - ((real x - real w / 2) / r)" by (simp only: minus_divide_left)
    then show ?thesis by simp
  qed
  show "close_to (15 / 2 ^ 53) (q * q)
           (fl64 (fl64 ((real x - real w / 2) / fl64 (real w * fl64 f))
                    * fl64 ((real x - real w / 2) / fl64 (real w * fl64 f))))"
    using c7 unfolding r_def [symmetric] sgn .
  show "((real x - real w / 2) / (real w * f))\<^sup>2 = q * q"
    by (simp add: q_def power2_eq_square abs_mult flip: abs_divide)
qed

text \<open>The distance computed in doubles is within a relative error of \<open>2^-48\<close> of the
  distance of the specification, for a mask of fewer than \<open>2^53\<close> columns and rows and
  radius fractions between \<open>2^-100\<close> and \<open>2^100\<close>.\<close>

lemma ellipseDistance_close:
  assumes "x < w" "y < h" "w < 2 ^ 53" "h < 2 ^ 53"
    and "1 / 2 ^ 100 \<le> fx" "fx \<le> 2 ^ 100" "1 / 2 ^ 100 \<le> fy" "fy \<le> 2 ^ 100"
  shows "\<bar>ellipseDistance fx fy w h x y - spec_ellipseDistance fx fy w h x y\<bar>
           \<le> spec_ellipseDistance fx fy w h x y / 2 ^ 48"
proof -
  define A where "A = (\<bar>real x - real w / 2\<bar> / (real w * fx)) * (\<bar>real x - real w / 2\<bar> / (real w * fx))"
  define B where "B = (\<bar>real y - real h / 2\<bar> / (real h * fy)) * (\<bar>real y - real h / 2\<bar> / (real h * fy))"
  define A' where "A' = fl64 (fl64 ((real x - real w / 2) / fl64 (real w * fl64 fx))
                    * fl64 ((real x - real w / 2) / fl64 (real w * fl64 fx)))"
  define B' where "B' = fl64 (fl64 ((real y - real h / 2) / fl64 (real h * fl64 fy))
                    * fl64 ((real y - real h / 2) / fl64 (real h * fl64 fy)))"
  have cA: "close_to (15 / 2 ^ 53) A A'" and nA: "A = 0 \<or> 1 / 2 ^ 308 \<le> A"
    and sA: "((real x - real w / 2) / (real w * fx))\<^sup>2 = A"
    unfolding A_def A'_def by (rule normalized_close [OF assms(1,3,5,6)])+
  have cB: "close_to (15 / 2 ^ 53) B B'" and nB: "B = 0 \<or> 1 / 2 ^ 308 \<le> B"
    and sB: "((real y - real h / 2) / (real h * fy))\<^sup>2 = B"
    unfolding B_def B'_def by (rule normalized_close [OF assms(2,4,7,8)])+
  have A0: "0 \<le> A" and B0: "0 \<le> B" by (simp_all add: A_def B_def)
  have A'0: "0 \<le> A'" and B'0: "0 \<le> B'" unfolding A'_def B'_def by (rule fl64_nonneg, simp)+
  have spec: "spec_ellipseDistance fx fy w h x y = sqrt (A + B)"
    by (simp add: spec_ellipseDistance_def Let_def sA sB)
  have code: "ellipseDistance fx fy w h x y = fl64 (sqrt (fl64 (A' + B')))"
    unfolding A'_def B'_def by (rule ellipseDistance_formula [OF assms(3,4,1,2)])
  have c1: "close_to (15 / 2 ^ 53) (A + B) (A' + B')" using cA cB by (rule close_to_add)
  have nS: "A + B = 0 \<or> 1 / 2 ^ 308 \<le> A + B" using nA nB A0 B0 by linarith
  have n1: "A' + B' = 0 \<or> 1 / 2 ^ 1022 \<le> A' + B'"
    using c1 _ nS by (rule close_to_normal) simp_all
  have c2: "close_to (17 / 2 ^ 53) (A + B) (fl64 (A' + B'))"
    using c1 _ _ n1 by (rule close_to_fl64) (use A0 B0 in simp_all)
  have S'0: "0 \<le> fl64 (A' + B')" using A'0 B'0 by (intro fl64_nonneg) simp
  have c3: "close_to (17 / 2 ^ 53) (sqrt (A + B)) (sqrt (fl64 (A' + B')))"
    using c2 _ S'0 by (rule close_to_sqrt) (use A0 B0 in simp)
  have nR: "sqrt (A + B) = 0 \<or> 1 / 2 ^ 154 \<le> sqrt (A + B)"
  proof (cases "A + B = 0")
    case True
    then show ?thesis by simp
  next
    case False
    then have "(1 / 2 ^ 154)\<^sup>2 \<le> A + B" using nS by (simp add: power2_eq_square)
    then have "1 / 2 ^ 154 \<le> sqrt (A + B)" by (rule real_le_rsqrt)
    then show ?thesis by simp
  qed
  have n3: "sqrt (fl64 (A' + B')) = 0 \<or> 1 / 2 ^ 1022 \<le> sqrt (fl64 (A' + B'))"
    using c3 _ nR by (rule close_to_normal) simp_all
  have "close_to (19 / 2 ^ 53) (sqrt (A + B)) (fl64 (sqrt (fl64 (A' + B'))))"
    using c3 _ _ n3 by (rule close_to_fl64) (use A0 B0 in simp_all)
  then have "close_to (1 / 2 ^ 48) (sqrt (A + B)) (fl64 (sqrt (fl64 (A' + B'))))"
    by (rule close_to_weaken) (use A0 B0 in simp_all)
  then show ?thesis unfolding spec code by (simp add: close_to_def)
qed

text \<open>Hence the bands of the mask in terms of the distance of the specification: away
  from the two boundaries by a relative \<open>2^-46\<close>, the value is the one the specification
  gives.\<close>

lemma ellipse_value_by_spec_distance:
  assumes "x < w" "y < h" "w < 2 ^ 53" "h < 2 ^ 53"
    and "1 / 2 ^ 100 \<le> fx" "fx \<le> 2 ^ 100" "1 / 2 ^ 100 \<le> fy" "fy \<le> 2 ^ 100"
  shows "spec_ellipseDistance fx fy w h x y \<le> 1 - 1 / 2 ^ 46 \<Longrightarrow>
           pixel (createBackgroundMask_ellipse fx fy w h) (y * w + x) = [255, 255, 255, 255]"
    and "1.3 + 1 / 2 ^ 46 \<le> spec_ellipseDistance fx fy w h x y \<Longrightarrow>
           pixel (createBackgroundMask_ellipse fx fy w h) (y * w + x) = [0, 0, 0, 255]"
proof -
  define s where "s = spec_ellipseDistance fx fy w h x y"
  define d where "d = ellipseDistance fx fy w h x y"
  have close: "\<bar>d - s\<bar> \<le> s / 2 ^ 48"
    unfolding d_def s_def by (rule ellipseDistance_close [OF assms])
  have s0: "0 \<le> s" by (simp add: s_def spec_ellipseDistance_def Let_def)
  have px: "pixel (createBackgroundMask_ellipse fx fy w h) (y * w + x)
      = [of_int (ellipseAlpha d), of_int (ellipseAlpha d), of_int (ellipseAlpha d), 255]"
    unfolding d_def using assms(1,2) by (rule pixel_createBackgroundMask_ellipse)
  {
    assume "s \<le> 1 - 1 / 2 ^ 46"
    then have "s + s / 2 ^ 48 \<le> 1" by simp
    moreover have "d \<le> s + s / 2 ^ 48" using close by linarith
    ultimately have "d \<le> 1" by linarith
    then have "ellipseAlpha d = 255" by (simp add: ellipseAlpha_def)
    then show "pixel (createBackgroundMask_ellipse fx fy w h) (y * w + x) = [255, 255, 255, 255]"
      unfolding px by simp
  }
  {
    assume "1.3 + 1 / 2 ^ 46 \<le> s"
    then have "fl64 1.3 < s - s / 2 ^ 48" by (simp add: fl64_13_10)
    moreover have "s - s / 2 ^ 48 \<le> d" using close by linarith
    ultimately have "fl64 1.3 < d" by linarith
    moreover have "1 < fl64 1.3" by (simp add: fl64_13_10)
    ultimately have "ellipseAlpha d = 0" by (auto simp: ellipseAlpha_def)
    then show "pixel (createBackgroundMask_ellipse fx fy w h) (y * w + x) = [0, 0, 0, 255]"
      unfolding px by simp
  }
qed

subsection \<open>Loops that write one cell per step\<close>

lemma fold_cell_length:
  "length (fold (\<lambda>k b. if c k then b[ix k := val k] else b) ks b) = length b"
  by (induction ks arbitrary: b) simp_all

lemma fold_cell_other:
  assumes "i \<notin> ix ` set ks"
  shows "fold (\<lambda>k b. if c k then b[ix k := val k] else b) ks b ! i = b ! i"
  using assms
proof (induction ks arbitrary: b)
  case Nil
  show ?case by simp
next
  case (Cons j js)
  then have "i \<noteq> ix j" "i \<notin> ix ` set js" by auto
  then show ?case using Cons.IH [of "if c j then b[ix j := val j] else b"] by simp
qed

lemma fold_cell_own:
  assumes "distinct ks" "inj_on ix (set ks)" "k \<in> set ks" "ix k < length b"
  shows "fold (\<lambda>k b. if c k then b[ix k := val k] else b) ks b ! ix k
           = (if c k then val k else b ! ix k)"
  using assms
proof (induction ks arbitrary: b)
  case Nil
  then show ?case by simp
next
  case (Cons j js)
  let ?b = "if c j then b[ix j := val j] else b"
  show ?case
  proof (cases "k = j")
    case True
    then have "k \<notin> set js" using Cons.prems(1) by simp
    then have "ix k \<notin> ix ` set js"
      using Cons.prems(2,3) by (auto simp: inj_on_def)
    then have "fold (\<lambda>k b. if c k then b[ix k := val k] else b) js ?b ! ix k = ?b ! ix k"
      by (rule fold_cell_other)
    then show ?thesis using True Cons.prems(4) by simp
  next
    case False
    then have kin: "k \<in> set js" using Cons.prems(3) by simp
    have ne: "ix j \<noteq> ix k"
    proof
      assume "ix j = ix k"
      then have "j = k" using Cons.prems(2) kin by (simp add: inj_on_def)
      with False show False by simp
    qed
    have "fold (\<lambda>k b. if c k then b[ix k := val k] else b) js ?b ! ix k
        = (if c k then val k else ?b ! ix k)"
      using Cons.prems kin by (intro Cons.IH) (simp_all add: inj_on_def)
    then show ?thesis using ne by simp
  qed
qed

subsection \<open>Sobel edge map\<close>

lemma sobelEdgeMap_flat:
  "sobelEdgeMap img w h =
     fold (\<lambda>k b. if True then b[pixelIndex w k := jfl fl32 (sobelGradient img w (fst k) (snd k))]
                 else b)
       (interior w h) (replicate (w * h) (Fin 0))"
  by (simp add: sobelEdgeMap_def interior_def fold_nested split_def pixelIndex_def)

lemma length_sobelEdgeMap [simp]: "length (sobelEdgeMap img w h) = w * h"
  unfolding sobelEdgeMap_flat by (simp only: fold_cell_length length_replicate)

lemma sobelEdgeMap_border:
  assumes "x < w" "y < h" "x = 0 \<or> y = 0 \<or> x = w - 1 \<or> y = h - 1"
  shows "sobelEdgeMap img w h ! (y * w + x) = Fin 0"
proof -
  have "y * w + x \<notin> pixelIndex w ` set (interior w h)"
    using assms by (rule border_not_interior)
  then have "sobelEdgeMap img w h ! (y * w + x) = replicate (w * h) (Fin 0) ! (y * w + x)"
    unfolding sobelEdgeMap_flat by (rule fold_cell_other)
  then show ?thesis using index_bound [OF assms(1,2)] by simp
qed

lemma sobelEdgeMap_interior:
  assumes "1 \<le> x" "x < w - 1" "1 \<le> y" "y < h - 1"
  shows "sobelEdgeMap img w h ! (y * w + x) = jfl fl32 (sobelGradient img w x y)"
proof -
  have mem: "(x, y) \<in> set (interior w h)" using assms by (simp add: set_interior)
  have "x < w" "y < h" using assms by arith+
  then have "pixelIndex w (x, y) < length (replicate (w * h) (Fin 0 :: jsnum))"
    using index_bound [of x w y h] by (simp add: pixelIndex_def)
  then have "sobelEdgeMap img w h ! pixelIndex w (x, y)
      = (if True then jfl fl32 (sobelGradient img w (fst (x, y)) (snd (x, y)))
         else replicate (w * h) (Fin 0) ! pixelIndex w (x, y))"
    unfolding sobelEdgeMap_flat
    using distinct_interior inj_on_interior mem by (rule fold_cell_own [rotated 3])
  then show ?thesis by (simp add: pixelIndex_def)
qed

text \<open>The two roundings of a gradient do not move it across the thresholds 25 and 30 of
  the classifier: the argument of the square root is an integer.\<close>

lemma gradient_threshold:
  fixes n :: int and c :: nat
  assumes "0 \<le> n" "0 < c" "c \<le> 32"
  shows "fl32 (fl64 (sqrt (real_of_int n))) < real c \<longleftrightarrow> n < int (c * c)"
proof
  assume lt: "fl32 (fl64 (sqrt (real_of_int n))) < real c"
  show "n < int (c * c)"
  proof (rule ccontr)
    assume "\<not> n < int (c * c)"
    then have "real (c * c) \<le> real_of_int n" by linarith
    then have "sqrt (real (c * c)) \<le> sqrt (real_of_int n)" by (simp only: real_sqrt_le_iff)
    moreover have "sqrt (real (c * c)) = real c" by (simp add: real_sqrt_mult)
    ultimately have "fl64 (real_of_int (int c)) \<le> fl64 (sqrt (real_of_int n))"
      by (intro fl64_mono) simp
    moreover have "fl64 (real_of_int (int c)) = real_of_int (int c)"
      using assms(3) by (intro fl64_of_int) simp
    ultimately have "fl32 (real_of_int (int c)) \<le> fl32 (fl64 (sqrt (real_of_int n)))"
      by (intro fl32_mono) simp
    moreover have "fl32 (real_of_int (int c)) = real_of_int (int c)"
      using assms(3) by (intro fl32_of_int) simp
    ultimately show False using lt by simp
  qed
next
  assume "n < int (c * c)"
  then have "real_of_int n \<le> real (c * c) - 1" by linarith
  also have "\<dots> \<le> (real c - 1 / 64)\<^sup>2"
  proof -
    have "(real c - 1 / 64)\<^sup>2 = real (c * c) - real c / 32 + 1 / 4096"
      by (simp add: power2_eq_square algebra_simps)
    moreover have "real c / 32 \<le> 1" using assms(3) by simp
    ultimately show ?thesis by simp
  qed
  finally have "real_of_int n \<le> (real c - 1 / 64)\<^sup>2" .
  moreover have "0 \<le> real c - 1 / 64" using assms(2) by simp
  ultimately have le: "sqrt (real_of_int n) \<le> real c - 1 / 64" by (intro real_le_lsqrt) simp_all
  have rep: "real c - 1 / 64 = real_of_int (64 * int c - 1) / 2 ^ 6" by (simp add: field_simps)
  have small: "\<bar>64 * int c - 1\<bar> < 2 ^ 24" using assms(3) by simp
  have "fl64 (sqrt (real_of_int n)) \<le> fl64 (real_of_int (64 * int c - 1) / 2 ^ 6)"
    using le unfolding rep by (rule fl64_mono)
  also have "\<dots> = real_of_int (64 * int c - 1) / 2 ^ 6"
    using small by (intro fl64_dyadic) simp_all
  finally have "fl32 (fl64 (sqrt (real_of_int n))) \<le> fl32 (real_of_int (64 * int c - 1) / 2 ^ 6)"
    by (rule fl32_mono)
  also have "\<dots> = real_of_int (64 * int c - 1) / 2 ^ 6"
    using small by (intro fl32_dyadic) simp_all
  finally show "fl32 (fl64 (sqrt (real_of_int n))) < real c" unfolding rep [symmetric] by simp
qed

text \<open>Grey values: white is 255, and the colour (0, 36, 12), whose weighted sum is
  22.5 in the real numbers, is 22, because the sum of the rounded products is the double
  just below 22.5.\<close>

lemma fl64_299_1000: "fl64 (299 / 1000) = 5386305154335113 / 18014398509481984"
  using float_round_evalI [where p = 53 and emin = "- 1022" and v = "299 / 1000" and e = "- 2"
      and m = 5386305154335113]
  by (simp add: fl64_def powr_neg_numeral)

lemma fl64_587_1000: "fl64 (587 / 1000) = 2643612981266481 / 4503599627370496"
  using float_round_evalI [where p = 53 and emin = "- 1022" and v = "587 / 1000" and e = "- 1"
      and m = 5287225962532962]
  by (simp add: fl64_def powr_neg_numeral)

lemma fl64_57_500: "fl64 (57 / 500) = 8214565720323785 / 72057594037927936"
  using float_round_evalI [where p = 53 and emin = "- 1022" and v = "57 / 500" and e = "- 4"
      and m = 8214565720323785]
  by (simp add: fl64_def powr_neg_numeral)

lemma getGrayscale_white: "getGrayscale [255, 255, 255] 0 = Some 255"
proof -
  have g1: "fl64 (299 / 1000) = 5386305154335113 / 18014398509481984"
    using float_round_evalI [where p = 53 and emin = "- 1022" and v = "299 / 1000" and e = "- 2"
        and m = 5386305154335113]
    by (simp add: fl64_def powr_neg_numeral)
  have g2: "fl64 (587 / 1000) = 2643612981266481 / 4503599627370496"
    using float_round_evalI [where p = 53 and emin = "- 1022" and v = "587 / 1000" and e = "- 1"
        and m = 5287225962532962]
    by (simp add: fl64_def powr_neg_numeral)
  have g3: "fl64 (57 / 500) = 8214565720323785 / 72057594037927936"
    using float_round_evalI [where p = 53 and emin = "- 1022" and v = "57 / 500" and e = "- 4"
        and m = 8214565720323785]
    by (simp add: fl64_def powr_neg_numeral)
  have g4: "fl64 (1373507814355453815 / 18014398509481984) = 5365264899825991 / 70368744177664"
    using float_round_evalI [where p = 53 and emin = "- 1022" and v = "1373507814355453815 / 18014398509481984" and e = 6
        and m = 5365264899825991]
    by (simp add: fl64_def powr_neg_numeral)
  have g5: "fl64 (674121310222952655 / 4503599627370496) = 2633286368058409 / 17592186044416"
    using float_round_evalI [where p = 53 and emin = "- 1022" and v = "674121310222952655 / 4503599627370496" and e = 7
        and m = 5266572736116818]
    by (simp add: fl64_def powr_neg_numeral)
  have g6: "fl64 (15898410372059627 / 70368744177664) = 3974602593014907 / 17592186044416"
    using float_round_eval_tieI [where p = 53 and emin = "- 1022" and v = "15898410372059627 / 70368744177664" and e = 7
        and f = 7949205186029813]
    by (simp add: fl64_def powr_neg_numeral)
  have g7: "fl64 (2094714258682565175 / 72057594037927936) = 4091238786489385 / 140737488355328"
    using float_round_evalI [where p = 53 and emin = "- 1022" and v = "2094714258682565175 / 72057594037927936" and e = 4
        and m = 8182477572978770]
    by (simp add: fl64_def powr_neg_numeral)
  have g8: "fl64 (35888059530608641 / 140737488355328) = 255"
    using float_round_evalI [where p = 53 and emin = "- 1022" and v = "35888059530608641 / 140737488355328" and e = 7
        and m = 8972014882652160]
    by (simp add: fl64_def powr_neg_numeral)
  show ?thesis
    by (simp add: getGrayscale_def rd_def js_round_def Let_def
        fl64_299_1000 fl64_587_1000 fl64_57_500 g1 g2 g3 g4 g5 g6 g7 g8)
qed

lemma getGrayscale_example: "getGrayscale [0, 36, 12] 0 = Some 22"
proof -
  have g1: "fl64 (299 / 1000) = 5386305154335113 / 18014398509481984"
    using float_round_evalI [where p = 53 and emin = "- 1022" and v = "299 / 1000" and e = "- 2"
        and m = 5386305154335113]
    by (simp add: fl64_def powr_neg_numeral)
  have g2: "fl64 (587 / 1000) = 2643612981266481 / 4503599627370496"
    using float_round_evalI [where p = 53 and emin = "- 1022" and v = "587 / 1000" and e = "- 1"
        and m = 5287225962532962]
    by (simp add: fl64_def powr_neg_numeral)
  have g3: "fl64 (57 / 500) = 8214565720323785 / 72057594037927936"
    using float_round_evalI [where p = 53 and emin = "- 1022" and v = "57 / 500" and e = "- 4"
        and m = 8214565720323785]
    by (simp add: fl64_def powr_neg_numeral)
  have g4: "fl64 (23792516831398329 / 1125899906842624) = 2974064603924791 / 140737488355328"
    using float_round_evalI [where p = 53 and emin = "- 1022" and v = "23792516831398329 / 1125899906842624" and e = 4
        and m = 5948129207849582]
    by (simp add: fl64_def powr_neg_numeral)
  have g5: "fl64 (2974064603924791 / 140737488355328) = 2974064603924791 / 140737488355328"
    using float_round_evalI [where p = 53 and emin = "- 1022" and v = "2974064603924791 / 140737488355328" and e = 4
        and m = 5948129207849582]
    by (simp add: fl64_def powr_neg_numeral)
  have g6: "fl64 (24643697160971355 / 18014398509481984) = 6160924290242839 / 4503599627370496"
    using float_round_evalI [where p = 53 and emin = "- 1022" and v = "24643697160971355 / 18014398509481984" and e = 0
        and m = 6160924290242839]
    by (simp add: fl64_def powr_neg_numeral)
  have g7: "fl64 (101330991615836151 / 4503599627370496) = 6333186975989759 / 281474976710656"
    using float_round_evalI [where p = 53 and emin = "- 1022" and v = "101330991615836151 / 4503599627370496" and e = 4
        and m = 6333186975989759]
    by (simp add: fl64_def powr_neg_numeral)
  show ?thesis
    by (simp add: getGrayscale_def rd_def js_round_def Let_def
        fl64_299_1000 fl64_587_1000 fl64_57_500 g1 g2 g3 g4 g5 g6 g7)
qed

lemma getGrayscale_black: "getGrayscale [0, 0, 0] 0 = Some 0"
  by (simp add: getGrayscale_def rd_def js_round_def Let_def)

text \<open>The grey value of a pixel depends on its three bytes only.\<close>

lemma getGrayscale_bytes:
  assumes "i * 3 + 2 < length img"
  shows "getGrayscale img i = getGrayscale [img ! (i * 3), img ! (i * 3 + 1), img ! (i * 3 + 2)] 0"
  using assms by (simp add: getGrayscale_def rd_def Let_def)

text \<open>An interior cell holds the rounded gradient: between a black column and two white
  columns of a 3 x 3 image it is 1020.\<close>

lemma sobelEdgeMap_example:
  "sobelEdgeMap [0, 0, 0, 255, 255, 255, 255, 255, 255,
                 0, 0, 0, 255, 255, 255, 255, 255, 255,
                 0, 0, 0, 255, 255, 255, 255, 255, 255] 3 3 ! (1 * 3 + 1) = Fin 1020"
proof -
  let ?img = "[0, 0, 0, 255, 255, 255, 255, 255, 255,
               0, 0, 0, 255, 255, 255, 255, 255, 255,
               0, 0, 0, 255, 255, 255, 255, 255, 255] :: uint8array"
  have g: "getGrayscale ?img 0 = Some 0" "getGrayscale ?img (Suc 0) = Some 255"
    "getGrayscale ?img (Suc (Suc 0)) = Some 255" "getGrayscale ?img 3 = Some 0"
    "getGrayscale ?img 5 = Some 255" "getGrayscale ?img 6 = Some 0"
    "getGrayscale ?img 7 = Some 255" "getGrayscale ?img 8 = Some 255"
    by (simp_all add: getGrayscale_bytes [of _ ?img] getGrayscale_white getGrayscale_black)
  have "sobelGradient ?img 3 1 1 = Fin 1020"
    by (simp add: sobelGradient_def g)
  then show ?thesis
    using sobelEdgeMap_interior [of 1 3 1 3 ?img] by simp
qed

subsection \<open>Background score map\<close>

lemma detectBackgroundAreas_flat:
  "detectBackgroundAreas img em w h cl =
     fold (\<lambda>k b. if jlt (f32_at em k) edgeThreshold
                 then b[(\<lambda>i. i) k := jfl fl32 (backgroundScoreAt img cl k)] else b)
       [0..<w * h] (replicate (w * h) (Fin 0))"
  by (simp add: detectBackgroundAreas_def)

lemma length_detectBackgroundAreas [simp]: "length (detectBackgroundAreas img em w h cl) = w * h"
  unfolding detectBackgroundAreas_flat by (simp only: fold_cell_length length_replicate)

lemma detectBackgroundAreas_nth:
  assumes "i < w * h"
  shows "detectBackgroundAreas img em w h cl ! i =
     (if jlt (f32_at em i) edgeThreshold then jfl fl32 (backgroundScoreAt img cl i) else Fin 0)"
proof -
  have "detectBackgroundAreas img em w h cl ! (\<lambda>i. i) i =
     (if jlt (f32_at em i) edgeThreshold then jfl fl32 (backgroundScoreAt img cl i)
      else replicate (w * h) (Fin 0) ! (\<lambda>i. i) i)"
    unfolding detectBackgroundAreas_flat
    by (rule fold_cell_own) (simp_all add: assms)
  then show ?thesis using assms by simp
qed






subsection \<open>Colour clusters\<close>












lemma sampleRange_example: "sampleRange 0 9 = [0, 8]" "sampleRange 0 8 = [0]"
  by (simp_all add: sampleRange.simps sampleStep_def)

lemma sampledColorMap_example:
  "sampledColorMap (replicate 216 0) 9 8 = [((Some 0, Some 0, Some 0), 2)]"
  unfolding sampledColorMap_def sampleRange_example
  by (simp add: sampleColor_def Let_def rd_def quantize_def countColor_def)

lemma analyzeColorClusters_example:
  "analyzeColorClusters (replicate 216 0) 9 8 =
     \<lparr>dominantColors = [\<lparr>rgb = (Some 0, Some 0, Some 0), frequency = 2\<rparr>], totalSamples = 1\<rparr>"
  unfolding analyzeColorClusters_def sampledColorMap_example
  by (simp add: sampleStep_def)

lemma backgroundScoreAt_example:
  "backgroundScoreAt (replicate 216 0) (analyzeColorClusters (replicate 216 0) 9 8) 0 = Fin 2"
  unfolding analyzeColorClusters_example
  by (simp add: backgroundScoreAt_def Let_def rd_def colorDistance_def jdiv_def)

subsection \<open>Composite classification\<close>

lemma jgt_sum4:
  "jgt (jadd (jadd (jadd (Fin a) (Fin b)) c) (Fin d)) t = jgt (jadd (Fin (a + b + d)) c) t"
  by (cases c) (simp_all add: add.commute add.left_commute)

lemma isBackgroundPixel_spec:
  assumes "x < w" "y < h"
  shows "isBackgroundPixel x y (y * w + x) img em bg w h cl
           = jgt (spec_backgroundScore em bg w h x y) 0.5"
proof -
  define cd where "cd = sqrt ((real x - real w / 2)\<^sup>2 + (real y - real h / 2)\<^sup>2)"
  define md where "md = sqrt ((real w / 2)\<^sup>2 + (real h / 2)\<^sup>2)"
  define bb :: real where
    "bb = (if min (min (int x) (int y)) (min (int w - int x - 1) (int h - int y - 1)) < 50
           then 0.3 else 0)"
  define es :: real where "es = (if jlt (f32_at em (y * w + x)) 25 then 0.4 else 0)"
  have "0 < real w / 2" using assms(1) by simp
  then have "0 < (real w / 2)\<^sup>2 + (real h / 2)\<^sup>2"
    by (intro add_pos_nonneg) simp_all
  then have "0 < sqrt ((real w / 2)\<^sup>2 + (real h / 2)\<^sup>2)"
    by (simp only: real_sqrt_gt_0_iff)
  then have pos: "md \<noteq> 0" unfolding md_def by linarith
  have cb: "(case jdiv cd md of Fin q \<Rightarrow> Fin (q * 0.2) | PosInf \<Rightarrow> PosInf | NaN \<Rightarrow> NaN)
      = Fin (cd / md * 0.2)"
    using pos by (simp add: jdiv_def)
  have border: "(min (min (int x) (int y)) (min (int w - int x - 1) (int h - int y - 1)) < 50)
      = (Min {x, y, w - x - 1, h - y - 1} < 50)"
    using assms by (auto simp: min_less_iff_disj)
  have "isBackgroundPixel x y (y * w + x) img em bg w h cl
      = jgt (jadd (jadd (jadd (Fin bb) (Fin es)) (f32_at bg (y * w + x)))
               (case jdiv cd md of Fin q \<Rightarrow> Fin (q * 0.2) | PosInf \<Rightarrow> PosInf | NaN \<Rightarrow> NaN)) 0.5"
    unfolding isBackgroundPixel_def Let_def cd_def md_def bb_def es_def by (rule refl)
  also have "\<dots> = jgt (jadd (Fin (bb + es + cd / md * 0.2)) (f32_at bg (y * w + x))) 0.5"
    unfolding cb by (rule jgt_sum4)
  also have "\<dots> = jgt (spec_backgroundScore em bg w h x y) 0.5"
    unfolding spec_backgroundScore_def Let_def cd_def md_def bb_def es_def border by (rule refl)
  finally show ?thesis .
qed

lemma rawMaskData_fold:
  "rawMaskData (fold (\<lambda>(x, y). emitPixel img em bg w h cl x y) ks st)
     = fold (\<lambda>(x, y) b. writeRGBA b ((y * w + x) * 4)
                          (if isBackgroundPixel x y (y * w + x) img em bg w h cl then 0 else 255))
         ks (rawMaskData st)"
  by (induction ks arbitrary: st) (simp_all add: split_def emitPixel_def Let_def)

lemma counters_fold:
  "editablePixels (fold (\<lambda>(x, y). emitPixel img em bg w h cl x y) ks st)
     = editablePixels st
       + length (filter (\<lambda>(x, y). isBackgroundPixel x y (y * w + x) img em bg w h cl) ks)"
  "backgroundDetected (fold (\<lambda>(x, y). emitPixel img em bg w h cl x y) ks st)
     = backgroundDetected st
       + length (filter (\<lambda>(x, y). isBackgroundPixel x y (y * w + x) img em bg w h cl) ks)"
  "protectedPixels (fold (\<lambda>(x, y). emitPixel img em bg w h cl x y) ks st)
     = protectedPixels st
       + length (filter (\<lambda>(x, y). \<not> isBackgroundPixel x y (y * w + x) img em bg w h cl) ks)"
  by (induction ks arbitrary: st; simp add: split_def emitPixel_def Let_def)+

lemma classifyPixels_flat:
  "classifyPixels img w h =
     fold (\<lambda>(x, y). emitPixel img (sobelEdgeMap img w h)
                        (detectBackgroundAreas img (sobelEdgeMap img w h) w h
                           (analyzeColorClusters img w h))
                        w h (analyzeColorClusters img w h) x y)
       (coords [0..<w] [0..<h])
       \<lparr>rawMaskData = replicate (w * h * 4) 0, protectedPixels = 0,
        editablePixels = 0, backgroundDetected = 0\<rparr>"
  by (simp add: classifyPixels_def Let_def fold_nested)

lemma length_rawMaskData [simp]: "length (rawMaskData (classifyPixels img w h)) = w * h * 4"
  unfolding classifyPixels_flat rawMaskData_fold
  by (subst fold_length) (simp_all add: split_def)

lemma pixel_rawMaskData:
  assumes "x < w" "y < h"
  shows "pixel (rawMaskData (classifyPixels img w h)) (y * w + x) =
     (if isBackgroundPixel x y (y * w + x) img (sobelEdgeMap img w h)
           (detectBackgroundAreas img (sobelEdgeMap img w h) w h (analyzeColorClusters img w h))
           w h (analyzeColorClusters img w h)
      then transparentPx else opaquePx)"
proof -
  let ?bg = "\<lambda>x y. isBackgroundPixel x y (y * w + x) img (sobelEdgeMap img w h)
           (detectBackgroundAreas img (sobelEdgeMap img w h) w h (analyzeColorClusters img w h))
           w h (analyzeColorClusters img w h)"
  let ?step = "\<lambda>(x, y) b. writeRGBA b ((y * w + x) * 4) (if ?bg x y then 0 else 255 :: u8)"
  let ?init = "replicate (w * h * 4) (0 :: u8)"
  have mem: "(x, y) \<in> set (coords [0..<w] [0..<h])" using assms by (simp add: set_all_coords)
  have fits: "(y * w + x) * 4 + 4 \<le> length ?init" using index_bound [OF assms] by simp
  have "pixel (fold ?step (coords [0..<w] [0..<h]) ?init) (pixelIndex w (x, y))
      = pixel (?step (x, y) ?init) (pixelIndex w (x, y))"
  proof (rule fold_pixel_own [where n = "w * h * 4"])
    fix k :: "nat \<times> nat" and b b' :: uint8array
    assume "k \<in> set (coords [0..<w] [0..<h])" and l: "length b = w * h * 4" "length b' = w * h * 4"
    then have "fst k < w" "snd k < h" by (auto simp: set_all_coords)
    then have "(snd k * w + fst k) * 4 + 4 \<le> w * h * 4"
      using index_bound [of "fst k" w "snd k" h] by simp
    then have "pixel (writeRGBA b ((snd k * w + fst k) * 4) v) (snd k * w + fst k)
             = pixel (writeRGBA b' ((snd k * w + fst k) * 4) v) (snd k * w + fst k)" for v
      using l by (simp only: pixel_writeRGBA_same)
    then show "pixel (?step k b) (pixelIndex w k) = pixel (?step k b') (pixelIndex w k)"
      by (simp only: split_def pixelIndex_def)
  next
    fix k :: "nat \<times> nat" and b :: uint8array and i
    assume "i \<noteq> pixelIndex w k"
    then have ne: "i \<noteq> snd k * w + fst k" by (simp add: pixelIndex_def)
    show "pixel (?step k b) i = pixel b i"
      unfolding split_def by (rule pixel_writeRGBA_other [OF ne])
  qed (simp_all add: split_def distinct_coords inj_on_all_coords mem)
  also have "\<dots> = (if ?bg x y then transparentPx else opaquePx)"
    using pixel_writeRGBA_same [OF fits]
    by (simp only: split_def pixelIndex_def fst_conv snd_conv transparentPx_def opaquePx_def if_distrib
        [of "\<lambda>v. pixel (writeRGBA ?init ((y * w + x) * 4) v) (y * w + x)"]) simp
  finally show ?thesis
    unfolding classifyPixels_flat rawMaskData_fold pixelIndex_def by simp
qed

subsection \<open>The classifier on a single black pixel\<close>

lemma replicate4: "replicate 4 v = [v, v, v, v]"
  by (simp add: eval_nat_numeral)

lemma single_pixel_edgeMap: "sobelEdgeMap [0, 0, 0] 1 1 = [Fin 0]"
  by (simp add: sobelEdgeMap_def)

lemma single_pixel_clusters:
  "analyzeColorClusters [0, 0, 0] 1 1 =
     \<lparr>dominantColors = [\<lparr>rgb = (Some 0, Some 0, Some 0), frequency = 1\<rparr>], totalSamples = 0\<rparr>"
proof -
  have "sampleRange 0 1 = [0]" by (simp add: sampleRange.simps sampleStep_def)
  then have "sampledColorMap [0, 0, 0] 1 1 = [((Some 0, Some 0, Some 0), 1)]"
    unfolding sampledColorMap_def
    by (simp add: sampleColor_def Let_def rd_def quantize_def countColor_def)
  then show ?thesis unfolding analyzeColorClusters_def by (simp add: sampleStep_def)
qed

lemma single_pixel_scoreMap:
  "detectBackgroundAreas [0, 0, 0] [Fin 0] 1 1 (analyzeColorClusters [0, 0, 0] 1 1) = [PosInf]"
  unfolding single_pixel_clusters
  by (simp add: detectBackgroundAreas_def f32_at_def rd_def edgeThreshold_def backgroundScoreAt_def
      Let_def colorDistance_def jdiv_def)

lemma single_pixel_score:
  "spec_backgroundScore [Fin 0] [PosInf] 1 1 0 0 = PosInf"
  by (simp add: spec_backgroundScore_def Let_def f32_at_def rd_def)

lemma single_pixel_classify:
  "classifyPixels [0, 0, 0] 1 1 =
     \<lparr>rawMaskData = [0, 0, 0, 0], protectedPixels = 0, editablePixels = 1,
      backgroundDetected = 1\<rparr>"
proof -
  have "isBackgroundPixel 0 0 (0 * 1 + 0) [0, 0, 0] [Fin 0] [PosInf] 1 1 cl
      = jgt (spec_backgroundScore [Fin 0] [PosInf] 1 1 0 0) 0.5" for cl
    by (rule isBackgroundPixel_spec) simp_all
  then have bg: "isBackgroundPixel 0 0 0 [0, 0, 0] [Fin 0] [PosInf] 1 1 cl" for cl
    unfolding single_pixel_score by simp
  have one: "[0..<1] = [0]" by simp
  have "classifyPixels [0, 0, 0] 1 1 =
      emitPixel [0, 0, 0] [Fin 0] [PosInf] 1 1 (analyzeColorClusters [0, 0, 0] 1 1) 0 0
        \<lparr>rawMaskData = replicate 4 0, protectedPixels = 0, editablePixels = 0,
         backgroundDetected = 0\<rparr>"
    unfolding classifyPixels_def Let_def single_pixel_edgeMap single_pixel_scoreMap one
    by simp
  also have "\<dots> = \<lparr>rawMaskData = [0, 0, 0, 0], protectedPixels = 0, editablePixels = 1,
      backgroundDetected = 1\<rparr>"
    unfolding emitPixel_def Let_def
    using bg [of "analyzeColorClusters [0, 0, 0] 1 1"] by (simp add: writeRGBA_def replicate4)
  finally show ?thesis .
qed

lemma single_pixel_mask:
  "synthesizeMask [0, 0, 0] 1 1 = \<lparr>cleanedMaskData = [0, 0, 0, 0], warnings = [NoSubjectDetected]\<rparr>"
proof -
  have tenth: "fl64 (3602879701896397 / 36028797018963968) = 3602879701896397 / 36028797018963968"
    using float_round_evalI [where p = 53 and emin = "- 1022" and v = "3602879701896397 / 36028797018963968" and e = "- 4"
        and m = 7205759403792794]
    by (simp add: fl64_def powr_neg_numeral)
  show ?thesis
    unfolding synthesizeMask_def Let_def single_pixel_classify
    by (simp add: cleanMaskArtifacts_def applyEdgeSmoothing_def cleanedMask_def thresholdPixel_def
        Let_def rd_def transparencyThreshold_def writeRGBA_def replicate4 fl64_1_10 tenth)
qed

subsection \<open>Counters of the emission loops\<close>

lemma editablePixels_count:
  "editablePixels (classifyPixels img w h) =
     length (filter (\<lambda>(x, y). pixel (rawMaskData (classifyPixels img w h)) (y * w + x) = transparentPx)
               (coords [0..<w] [0..<h]))"
proof -
  have "filter (\<lambda>(x, y). pixel (rawMaskData (classifyPixels img w h)) (y * w + x) = transparentPx)
          (coords [0..<w] [0..<h])
      = filter (\<lambda>(x, y). isBackgroundPixel x y (y * w + x) img (sobelEdgeMap img w h)
           (detectBackgroundAreas img (sobelEdgeMap img w h) w h (analyzeColorClusters img w h))
           w h (analyzeColorClusters img w h)) (coords [0..<w] [0..<h])"
    by (rule filter_cong)
      (auto simp: set_all_coords pixel_rawMaskData transparentPx_def opaquePx_def split: if_splits)
  then show ?thesis unfolding classifyPixels_flat [of img w h, symmetric]
    by (subst classifyPixels_flat) (simp add: counters_fold)
qed

lemma protectedPixels_count:
  "protectedPixels (classifyPixels img w h) =
     length (filter (\<lambda>(x, y). pixel (rawMaskData (classifyPixels img w h)) (y * w + x) = opaquePx)
               (coords [0..<w] [0..<h]))"
proof -
  have "filter (\<lambda>(x, y). pixel (rawMaskData (classifyPixels img w h)) (y * w + x) = opaquePx)
          (coords [0..<w] [0..<h])
      = filter (\<lambda>(x, y). \<not> isBackgroundPixel x y (y * w + x) img (sobelEdgeMap img w h)
           (detectBackgroundAreas img (sobelEdgeMap img w h) w h (analyzeColorClusters img w h))
           w h (analyzeColorClusters img w h)) (coords [0..<w] [0..<h])"
    by (rule filter_cong)
      (auto simp: set_all_coords pixel_rawMaskData transparentPx_def opaquePx_def split: if_splits)
  then show ?thesis unfolding classifyPixels_flat [of img w h, symmetric]
    by (subst classifyPixels_flat) (simp add: counters_fold)
qed

subsection \<open>The colour score of the specification\<close>

lemma samples_taken_multiple_of_8:
  fixes w h :: nat
  assumes "8 dvd w" "8 dvd h"
  shows "((w + 7) div 8) * ((h + 7) div 8) = (w * h) div 64"
proof -
  obtain a where w: "w = 8 * a" using assms(1) by (rule dvdE)
  obtain b where h: "h = 8 * b" using assms(2) by (rule dvdE)
  have "(8 * a + 7) div 8 = a" "(8 * b + 7) div 8 = b" by simp_all
  moreover have "(8 * a * (8 * b)) div 64 = a * b" by simp
  ultimately show ?thesis unfolding w h by simp
qed









text \<open>Outside the multiples of 8 \<open>totalSamples\<close> is not the number of samples: on a black
  9 x 8 image two samples are taken, \<open>totalSamples\<close> is 1, and the cell of pixel 0 holds 2
  where the score of the specification is 1.\<close>

lemma spec_colorScore_example: "spec_colorScore (replicate 216 0) 9 8 0 = Fin 1"
proof -
  have "sobelEdgeMap (replicate 216 0) 9 8 ! (0 * 9 + 0) = Fin 0"
    by (rule sobelEdgeMap_border) simp_all
  then have "f32_at (sobelEdgeMap (replicate 216 0) 9 8) 0 = Fin 0"
    by (simp add: f32_at_def rd_def)
  then show ?thesis
    unfolding spec_colorScore_def Let_def sampledColorMap_example analyzeColorClusters_example
    by (simp add: rd_def spec_colorDistance_def jdiv_def)
qed

lemma score_map_off_grid:
  "sum_list (map snd (sampledColorMap (replicate 216 0) 9 8)) = 2
   \<and> totalSamples (analyzeColorClusters (replicate 216 0) 9 8) = 1
   \<and> detectBackgroundAreas (replicate 216 0) (sobelEdgeMap (replicate 216 0) 9 8) 9 8
        (analyzeColorClusters (replicate 216 0) 9 8) ! 0 = Fin 2
   \<and> spec_colorScore (replicate 216 0) 9 8 0 = Fin 1"
proof -
  have "sobelEdgeMap (replicate 216 0) 9 8 ! (0 * 9 + 0) = Fin 0"
    by (rule sobelEdgeMap_border) simp_all
  then have "f32_at (sobelEdgeMap (replicate 216 0) 9 8) 0 = Fin 0"
    by (simp add: f32_at_def rd_def)
  then have "detectBackgroundAreas (replicate 216 0) (sobelEdgeMap (replicate 216 0) 9 8) 9 8
        (analyzeColorClusters (replicate 216 0) 9 8) ! 0 = Fin 2"
    by (simp add: detectBackgroundAreas_nth edgeThreshold_def backgroundScoreAt_example)
  then show ?thesis
    by (simp add: sampledColorMap_example analyzeColorClusters_example spec_colorScore_example)
qed

section \<open>The claims\<close>

text \<open>
  Claim C6. The binary cleanup (the thresholding loop of \<^verbatim>\<open>cleanMaskArtifacts\<close>) makes
  a pixel (0,0,0,0) when its alpha is below 10 and (255,255,255,255) otherwise. Applied
  to a mask that is already binary it changes no pixel, so a second application yields
  the same mask as the first; the same holds for the cleanup of any buffer.
\<close>

theorem cleanup_idempotent:
  assumes "binaryMask m width height"
  shows "cleanedMask (cleanedMask m width height) width height = cleanedMask m width height
       \<and> cleanedMask m width height = m
       \<and> cleanedMask (cleanedMask raw width height) width height = cleanedMask raw width height
       \<and> (i < width * height \<and> rd raw (i * 4 + 3) = Some a \<longrightarrow>
            pixel (cleanedMask raw width height) i = (if a < 10 then transparentPx else opaquePx))"
proof -
  have "cleanedMask (cleanedMask raw width height) width height = cleanedMask raw width height"
    by (rule cleanedMask_binary_id) (rule binaryMask_cleanedMask)
  moreover have "i < width * height \<and> rd raw (i * 4 + 3) = Some a \<longrightarrow>
      pixel (cleanedMask raw width height) i = (if a < 10 then transparentPx else opaquePx)"
    by (simp add: pixel_cleanedMask transparencyThreshold_def)
  ultimately show ?thesis using assms by (simp add: cleanedMask_binary_id)
qed

theorem cleanup_idempotent_witness:
  "cleanedMask (cleanedMask [0, 0, 0, 0, 255, 255, 255, 255] 2 1) 2 1
     = cleanedMask [0, 0, 0, 0, 255, 255, 255, 255] 2 1
   \<and> cleanedMask [0, 0, 0, 0, 255, 255, 255, 255] 2 1 = [0, 0, 0, 0, 255, 255, 255, 255]
   \<and> pixel (cleanedMask [1, 2, 3, 9, 7, 7, 7, 10] 2 1) 0 = transparentPx
   \<and> pixel (cleanedMask [1, 2, 3, 9, 7, 7, 7, 10] 2 1) 1 = opaquePx"
proof -
  have bm: "binaryMask [0, 0, 0, 0, 255, 255, 255, 255] 2 1"
    by (simp add: binaryMask_def pixel_def binaryPx_def transparentPx_def opaquePx_def upt_conv_Cons)
  have "rd [1, 2, 3, 9, 7, 7, 7, 10 :: u8] (0 * 4 + 3) = Some 9"
    and "rd [1, 2, 3, 9, 7, 7, 7, 10 :: u8] (1 * 4 + 3) = Some 10"
    by (simp_all add: rd_def)
  then show ?thesis
    using cleanup_idempotent [OF bm, of "[1, 2, 3, 9, 7, 7, 7, 10]" 0 9]
      cleanup_idempotent [OF bm, of "[1, 2, 3, 9, 7, 7, 7, 10]" 1 10]
    by simp
qed

text \<open>
  Claim C1. Whatever the input raster, the mask of the heuristic classifier is binary
  after the cleanup loop (every pixel is (0,0,0,0) or (255,255,255,255)), and it is
  still binary after the smoothing pass, which gives the mask that is returned.
\<close>

theorem binary_mask_invariant:
  "binaryMask (cleanedMask (rawMaskData (classifyPixels imageData width height)) width height)
     width height
   \<and> cleanedMaskData (synthesizeMask imageData width height)
       = applyEdgeSmoothing
           (cleanedMask (rawMaskData (classifyPixels imageData width height)) width height)
           width height
   \<and> binaryMask (cleanedMaskData (synthesizeMask imageData width height)) width height"
  by (simp add: synthesizeMask_def Let_def binaryMask_cleanedMask binaryMask_cleanMaskArtifacts
      cleanMaskArtifacts_def [symmetric])

theorem binary_mask_invariant_witness:
  "binaryMask (cleanedMaskData (synthesizeMask [10, 20, 30] 1 1)) 1 1"
  by (rule binary_mask_invariant [of "[10, 20, 30]" 1 1, THEN conjunct2, THEN conjunct2])

text \<open>
  Claim C5. In a binary mask, an interior pixel with a neighbour of the opposite state
  takes its new state from the average of the four neighbouring alphas: above 127 the
  pixel is opaque after the pass; at most 127 and currently transparent, it is
  transparent after the pass; when more than two of the four neighbours have the pixel's
  own state it is unchanged. \<^verbatim>\<open>cleanMaskArtifacts\<close> runs the pass once on the
  thresholded mask.
\<close>

theorem edge_smoothing_rule:
  assumes "binaryMask m width height"
    and "1 \<le> x" "x < width - 1" "1 \<le> y" "y < height - 1"
    and "rd m ((y * width + x) * 4 + 3) = Some alpha"
    and "hasOppositeNeighbor alpha (neighborAlphas m width x y)"
  shows "(\<exists>avg. avgNeighbor (neighborAlphas m width x y) = Fin avg
          \<and> avg = real (sum_list (map (\<lambda>n. unat (the n)) (neighborAlphas m width x y))) / 4
          \<and> (127 < avg \<longrightarrow> pixel (applyEdgeSmoothing m width height) (y * width + x) = opaquePx)
          \<and> (avg \<le> 127 \<and> alpha = 0 \<longrightarrow>
               pixel (applyEdgeSmoothing m width height) (y * width + x) = transparentPx)
          \<and> (2 < length (filter (\<lambda>n. n = Some alpha) (neighborAlphas m width x y)) \<longrightarrow>
               pixel (applyEdgeSmoothing m width height) (y * width + x)
                 = pixel m (y * width + x)))
       \<and> cleanMaskArtifacts raw width height
           = applyEdgeSmoothing (cleanedMask raw width height) width height"
proof -
  define p where "p = y * width + x"
  define out where "out = pixel (applyEdgeSmoothing m width height) p"
  obtain a1 a2 a3 a4 where nb: "neighborAlphas m width x y = [Some a1, Some a2, Some a3, Some a4]"
    and bin: "a1 = 0 \<or> a1 = 255" "a2 = 0 \<or> a2 = 255" "a3 = 0 \<or> a3 = 255" "a4 = 0 \<or> a4 = 255"
    using binaryMask_neighbors [OF assms(1-5)] by blast
  define avg where "avg = (real (unat a1) + real (unat a2) + real (unat a3) + real (unat a4)) / 4"
  have avg: "avgNeighbor (neighborAlphas m width x y) = Fin avg"
    unfolding nb avg_def by (rule avgNeighbor_Some4)
  have p: "p < width * height" unfolding p_def using assms(2-5) by (intro index_bound) arith+
  have px: "(alpha = 0 \<and> pixel m p = transparentPx) \<or> (alpha = 255 \<and> pixel m p = opaquePx)"
    using binaryMask_alpha(2,3) [OF assms(1) p] assms(6) unfolding p_def by auto
  have res: "out =
     (if (alpha = 0 \<and> avg < 64) \<or> (alpha = 255 \<and> 191 < avg) then pixel m p
      else if 127 < avg then opaquePx else transparentPx)"
    unfolding out_def p_def by (rule smoothed_boundary_pixel [OF assms avg])
  have sum: "avg = real (sum_list (map (\<lambda>n. unat (the n)) (neighborAlphas m width x y))) / 4"
    unfolding nb avg_def by simp
  have opaque: "127 < avg \<longrightarrow> out = opaquePx"
    using res px by auto
  have transp: "avg \<le> 127 \<and> alpha = 0 \<longrightarrow> out = transparentPx"
    using res px by auto
  have major: "2 < length (filter (\<lambda>n. n = Some alpha) (neighborAlphas m width x y)) \<longrightarrow> out = pixel m p"
  proof
    assume maj: "2 < length (filter (\<lambda>n. n = Some alpha) (neighborAlphas m width x y))"
    have opp: "hasOppositeNeighbor alpha [Some a1, Some a2, Some a3, Some a4]"
      using assms(7) nb by simp
    have "(alpha = 0 \<and> avg < 64) \<or> (alpha = 255 \<and> 191 < avg)"
      using px bin maj opp unfolding nb avg_def hasOppositeNeighbor_def
      by (elim disjE conjE; simp)
    then show "out = pixel m p" using res by simp
  qed
  show ?thesis
    using avg sum opaque transp major
    unfolding out_def p_def cleanMaskArtifacts_def by blast
qed

theorem edge_smoothing_rule_witness:
  "pixel (applyEdgeSmoothing exampleMask 4 3) (1 * 4 + 1) = opaquePx"
proof -
  have bm: "binaryMask exampleMask 4 3"
    by (simp add: exampleMask_def binaryMask_def pixel_def binaryPx_def transparentPx_def
        opaquePx_def upt_conv_Cons)
  have al: "rd exampleMask ((1 * 4 + 1) * 4 + 3) = Some 0"
    by (simp add: exampleMask_def rd_def)
  have nb: "neighborAlphas exampleMask 4 1 1 = [Some 255, Some 255, Some 0, Some 0]"
    by (simp add: exampleMask_def neighborAlphas_def rd_def)
  have opp: "hasOppositeNeighbor 0 (neighborAlphas exampleMask 4 1 1)"
    unfolding nb by (simp add: hasOppositeNeighbor_def)
  from edge_smoothing_rule [OF bm _ _ _ _ al opp, of "[]"]
  obtain avg where
    "avg = real (sum_list (map (\<lambda>n. unat (the n)) (neighborAlphas exampleMask 4 1 1))) / 4"
    and "127 < avg \<longrightarrow> pixel (applyEdgeSmoothing exampleMask 4 3) (1 * 4 + 1) = opaquePx"
    by auto
  then show ?thesis unfolding nb by simp
qed

text \<open>The case that the claim leaves open: an opaque boundary pixel whose neighbours
  average at most 127 becomes transparent.\<close>

lemma smoothing_opaque_minority:
  assumes "binaryMask m width height"
    and "1 \<le> x" "x < width - 1" "1 \<le> y" "y < height - 1"
    and "rd m ((y * width + x) * 4 + 3) = Some 255"
    and "hasOppositeNeighbor 255 (neighborAlphas m width x y)"
    and "avgNeighbor (neighborAlphas m width x y) = Fin avg" "avg \<le> 127"
  shows "pixel (applyEdgeSmoothing m width height) (y * width + x) = transparentPx"
  using smoothed_boundary_pixel [OF assms(1-8)] assms(9) by simp

text \<open>The pass is not a fixed point of itself: run a second time on the example mask it
  changes pixel (2, 1), whose left neighbour the first run made opaque.\<close>

lemma smoothing_second_pass_differs:
  "applyEdgeSmoothing (applyEdgeSmoothing exampleMask 4 3) 4 3 \<noteq> applyEdgeSmoothing exampleMask 4 3"
  by (simp add: exampleMask_def applyEdgeSmoothing_def smoothPixel_def Let_def neighborAlphas_def
      rd_def hasOppositeNeighbor_def avgNeighbor_def jdiv_def writeRGBA_def upt_conv_Cons)

text \<open>
  Claim C10. The smoothing pass keeps the length of the buffer and leaves unchanged
  every pixel of the outermost ring and every interior pixel without a neighbour of the
  opposite state. An interior pixel of the result is what the loop body makes of the
  input alone, and visiting the interior pixels in any other order gives the same result.
\<close>

theorem smoothing_frame:
  "length (applyEdgeSmoothing m width height) = length m
   \<and> (x < width \<and> y < height \<and> (x = 0 \<or> y = 0 \<or> x = width - 1 \<or> y = height - 1) \<longrightarrow>
        pixel (applyEdgeSmoothing m width height) (y * width + x) = pixel m (y * width + x))
   \<and> (1 \<le> x \<and> x < width - 1 \<and> 1 \<le> y \<and> y < height - 1 \<longrightarrow>
        pixel (applyEdgeSmoothing m width height) (y * width + x)
          = pixel (smoothPixel m width x y m) (y * width + x))
   \<and> (1 \<le> x \<and> x < width - 1 \<and> 1 \<le> y \<and> y < height - 1
        \<and> rd m ((y * width + x) * 4 + 3) = Some alpha
        \<and> \<not> hasOppositeNeighbor alpha (neighborAlphas m width x y) \<longrightarrow>
        pixel (applyEdgeSmoothing m width height) (y * width + x) = pixel m (y * width + x))
   \<and> (mset ps = mset (interior width height) \<longrightarrow>
        fold (\<lambda>(x, y). smoothPixel m width x y) ps m = applyEdgeSmoothing m width height)"
proof (intro conjI impI)
  show "length (applyEdgeSmoothing m width height) = length m" by simp
next
  assume "x < width \<and> y < height \<and> (x = 0 \<or> y = 0 \<or> x = width - 1 \<or> y = height - 1)"
  then have "y * width + x \<notin> pixelIndex width ` set (interior width height)"
    by (intro border_not_interior) simp_all
  then show "pixel (applyEdgeSmoothing m width height) (y * width + x) = pixel m (y * width + x)"
    by (rule pixel_applyEdgeSmoothing_other)
next
  assume "1 \<le> x \<and> x < width - 1 \<and> 1 \<le> y \<and> y < height - 1"
  then show "pixel (applyEdgeSmoothing m width height) (y * width + x)
          = pixel (smoothPixel m width x y m) (y * width + x)"
    by (intro pixel_applyEdgeSmoothing_interior) simp_all
next
  assume a: "1 \<le> x \<and> x < width - 1 \<and> 1 \<le> y \<and> y < height - 1
        \<and> rd m ((y * width + x) * 4 + 3) = Some alpha
        \<and> \<not> hasOppositeNeighbor alpha (neighborAlphas m width x y)"
  then have "pixel (applyEdgeSmoothing m width height) (y * width + x)
          = pixel (smoothPixel m width x y m) (y * width + x)"
    by (intro pixel_applyEdgeSmoothing_interior) simp_all
  moreover have "smoothPixel m width x y m = m"
    using a by (simp add: smoothPixel_def Let_def)
  ultimately show "pixel (applyEdgeSmoothing m width height) (y * width + x) = pixel m (y * width + x)"
    by simp
next
  assume "mset ps = mset (interior width height)"
  then show "fold (\<lambda>(x, y). smoothPixel m width x y) ps m = applyEdgeSmoothing m width height"
    by (rule smoothing_order_irrelevant)
qed

theorem smoothing_frame_witness:
  "pixel (applyEdgeSmoothing exampleMask 4 3) (0 * 4 + 0) = pixel exampleMask (0 * 4 + 0)
   \<and> pixel (applyEdgeSmoothing exampleMask 4 3) (1 * 4 + 1)
       = pixel (smoothPixel exampleMask 4 1 1 exampleMask) (1 * 4 + 1)
   \<and> pixel (applyEdgeSmoothing (replicate 36 0) 3 3) (1 * 3 + 1) = pixel (replicate 36 0) (1 * 3 + 1)
   \<and> fold (\<lambda>(x, y). smoothPixel exampleMask 4 x y) [(2, 1), (1, 1)] exampleMask
       = applyEdgeSmoothing exampleMask 4 3"
proof (intro conjI)
  show "pixel (applyEdgeSmoothing exampleMask 4 3) (0 * 4 + 0) = pixel exampleMask (0 * 4 + 0)"
    using smoothing_frame [of exampleMask 4 3 0 0 0 "[]"] by simp
  show "pixel (applyEdgeSmoothing exampleMask 4 3) (1 * 4 + 1)
      = pixel (smoothPixel exampleMask 4 1 1 exampleMask) (1 * 4 + 1)"
    using smoothing_frame [of exampleMask 4 3 1 1 0 "[]"] by simp
  have "(1::nat) \<le> 1 \<and> (1::nat) < 3 - 1 \<and> (1::nat) \<le> 1 \<and> (1::nat) < 3 - 1
      \<and> rd (replicate 36 (0 :: u8)) ((1 * 3 + 1) * 4 + 3) = Some 0
      \<and> \<not> hasOppositeNeighbor 0 (neighborAlphas (replicate 36 (0 :: u8)) 3 1 1)"
    by (simp add: hasOppositeNeighbor_def neighborAlphas_def rd_def)
  then show "pixel (applyEdgeSmoothing (replicate 36 0) 3 3) (1 * 3 + 1)
      = pixel (replicate 36 0) (1 * 3 + 1)"
    using smoothing_frame [of "replicate 36 0" 3 3 1 1 0 "[]"] by blast
  have "mset [(2, 1), (1, 1)] = mset (interior 4 3)"
    by (simp add: interior_def coords_def upt_conv_Cons)
  then show "fold (\<lambda>(x, y). smoothPixel exampleMask 4 x y) [(2, 1), (1, 1)] exampleMask
      = applyEdgeSmoothing exampleMask 4 3"
    using smoothing_frame [of exampleMask 4 3 0 0 0 "[(2, 1), (1, 1)]"] by blast
qed

text \<open>
  Claim C8, as stated, fails under both readings of \<^verbatim>\<open>alpha\<close>. Read as the value that the
  source calls \<^verbatim>\<open>alpha\<close> and writes to the colour channels, it is not 255 for every
  \<open>d \<le> 1.0\<close>: in the 180 x 180 mask of \<^verbatim>\<open>api/cv/[id]/route.ts\<close> the pixel (153, 90) has
  distance 1 by the formula of the claim, but the radius \<^verbatim>\<open>180 * 0.35\<close> is the double just
  below 63, the distance computed from it is the double just above 1, and the pixel
  receives 254. Read as the alpha channel of the mask, it is not 0 for every \<open>d > 1.3\<close>: the
  alpha channel is 255 everywhere, as at the corner (0, 0) of the 512 x 512 mask.
\<close>

theorem ellipse_alpha_counterexample:
  "spec_ellipseDistance 0.35 0.4 180 180 153 90 = 1
   \<and> pixel (createBackgroundMask_cv_route 180 180) (90 * 180 + 153) = [254, 254, 254, 255]
   \<and> 1.3 < spec_ellipseDistance 0.35 0.4 512 512 0 0
   \<and> pixel (createBackgroundMask_cv_route 512 512) (0 * 512 + 0) = [0, 0, 0, 255]"
proof -
  have "pixel (createBackgroundMask_cv_route 180 180) (90 * 180 + 153) = [254, 254, 254, 255]"
    using ellipse_pixel_value [OF _ _ cv_180_rim_distance cv_180_rim_alpha]
    by (simp add: createBackgroundMask_cv_route_def)
  moreover have "pixel (createBackgroundMask_cv_route 512 512) (0 * 512 + 0) = [0, 0, 0, 255]"
    using ellipse_pixel_value [OF _ _ cv_512_corner_distance cv_512_corner_alpha]
    by (simp add: createBackgroundMask_cv_route_def)
  ultimately show ?thesis
    using spec_distance_cv_180_rim spec_distance_cv_512_corner by simp
qed

text \<open>
  Claim C8, amended. Let \<open>d\<close> be the distance of a pixel as the source computes it: the
  formula \<open>sqrt (((x - cx) / rx)\<^sup>2 + ((y - cy) / ry)\<^sup>2)\<close> of the claim with every operation
  rounded to the nearest double. For all widths, heights and radius fractions with radii
  \<open>rx, ry > 0\<close>, the value that the mask holds in the colour channels of a pixel does not
  increase when \<open>d\<close> increases; it is 255 when \<open>d \<le> 1.0\<close> and 0 when \<open>d\<close> exceeds the double
  1.3. The three colour channels of a pixel hold the same value, and its alpha channel
  holds 255.
\<close>

theorem ellipse_alpha_monotone:
  assumes "0 < fl64 (real width * fl64 fracX)" "0 < fl64 (real height * fl64 fracY)"
    and "x1 < width" "y1 < height" "x2 < width" "y2 < height"
  shows "let cx = fl64 (real width / 2);
             cy = fl64 (real height / 2);
             rx = fl64 (real width * fl64 fracX);
             ry = fl64 (real height * fl64 fracY);
             d = (\<lambda>x y. fl64 (sqrt (fl64
                    (fl64 (fl64 (fl64 (real x - cx) / rx) * fl64 (fl64 (real x - cx) / rx))
                     + fl64 (fl64 (fl64 (real y - cy) / ry) * fl64 (fl64 (real y - cy) / ry))))));
             mask = createBackgroundMask_ellipse fracX fracY width height;
             val = (\<lambda>x y. unat (mask ! ((y * width + x) * 4)))
         in (d x1 y1 \<le> d x2 y2 \<longrightarrow> val x2 y2 \<le> val x1 y1)
          \<and> (d x1 y1 \<le> 1.0 \<longrightarrow> val x1 y1 = 255)
          \<and> (fl64 1.3 < d x1 y1 \<longrightarrow> val x1 y1 = 0)
          \<and> mask ! ((y1 * width + x1) * 4 + 1) = mask ! ((y1 * width + x1) * 4)
          \<and> mask ! ((y1 * width + x1) * 4 + 2) = mask ! ((y1 * width + x1) * 4)
          \<and> mask ! ((y1 * width + x1) * 4 + 3) = 255"
proof -
  let ?M = "createBackgroundMask_ellipse fracX fracY width height"
  let ?d1 = "ellipseDistance fracX fracY width height x1 y1"
  let ?d2 = "ellipseDistance fracX fracY width height x2 y2"
  have g1: "unat (?M ! ((y1 * width + x1) * 4)) = nat (ellipseAlpha ?d1)"
    using assms(3,4) by (rule ellipse_grey)
  have g2: "unat (?M ! ((y2 * width + x2) * 4)) = nat (ellipseAlpha ?d2)"
    using assms(5,6) by (rule ellipse_grey)
  have mono: "?d1 \<le> ?d2 \<longrightarrow>
      unat (?M ! ((y2 * width + x2) * 4)) \<le> unat (?M ! ((y1 * width + x1) * 4))"
    unfolding g1 g2 using ellipseAlpha_antimono [of ?d1 ?d2] by (auto intro: nat_mono)
  have inside: "?d1 \<le> 1.0 \<longrightarrow> unat (?M ! ((y1 * width + x1) * 4)) = 255"
    unfolding g1 by (simp add: ellipseAlpha_def)
  have "1 < fl64 1.3" by (simp add: fl64_13_10)
  then have outside: "fl64 1.3 < ?d1 \<longrightarrow> unat (?M ! ((y1 * width + x1) * 4)) = 0"
    unfolding g1 by (auto simp: ellipseAlpha_def)
  have fits: "(y1 * width + x1) * 4 + 4 \<le> length ?M"
    using index_bound [OF assms(3,4)] by simp
  have px: "pixel ?M (y1 * width + x1) =
      [of_int (ellipseAlpha ?d1), of_int (ellipseAlpha ?d1), of_int (ellipseAlpha ?d1), 255]"
    using assms(3,4) by (rule pixel_createBackgroundMask_ellipse)
  have chan: "?M ! ((y1 * width + x1) * 4 + 1) = ?M ! ((y1 * width + x1) * 4)"
    "?M ! ((y1 * width + x1) * 4 + 2) = ?M ! ((y1 * width + x1) * 4)"
    "?M ! ((y1 * width + x1) * 4 + 3) = 255"
    using px by (simp_all only: pixel_eq_iff [OF fits])
  show ?thesis
    unfolding Let_def ellipseDistance_def [unfolded Let_def, symmetric]
    using mono inside outside chan by blast
qed

theorem ellipse_alpha_monotone_witness:
  "unat (createBackgroundMask_part_001 512 512 ! ((256 * 512 + 400) * 4))
     \<le> unat (createBackgroundMask_part_001 512 512 ! ((256 * 512 + 256) * 4))
   \<and> unat (createBackgroundMask_part_001 512 512 ! ((256 * 512 + 256) * 4)) = 255
   \<and> createBackgroundMask_part_001 512 512 ! ((256 * 512 + 256) * 4 + 3) = 255"
proof -
  have "fl64 1 \<le> fl64 (real 512 * fl64 0.25)" "fl64 1 \<le> fl64 (real 512 * fl64 0.3)"
    by (rule fl64_mono, simp add: fl64_1_4 fl64_3_10)+
  then have radii: "0 < fl64 (real 512 * fl64 0.25)" "0 < fl64 (real 512 * fl64 0.3)"
    by simp_all
  have c: "(256 :: nat) < 512" "(400 :: nat) < 512" by simp_all
  have d0: "ellipseDistance 0.25 0.3 512 512 256 256 = 0" by (rule part_512_centre_distance)
  have d1: "ellipseDistance 0.25 0.3 512 512 400 256 = 9 / 8" by (rule part_512_band_distance)
  have le: "(0 :: real) \<le> 9 / 8" and in1: "(0 :: real) \<le> 1.0" by simp_all
  from ellipse_alpha_monotone [where width = 512 and height = 512 and fracX = "0.25"
      and fracY = "0.3" and ?x1.0 = 256 and ?y1.0 = 256 and ?x2.0 = 400 and ?y2.0 = 256,
      OF radii c(1) c(1) c(2) c(1), unfolded Let_def
        ellipseDistance_def [unfolded Let_def, symmetric] d0 d1] le in1
  show ?thesis unfolding createBackgroundMask_part_001_def by blast
qed

text \<open>
  Claim C4, as stated, fails in three ways. The source takes the integer part of
  \<open>255 * falloff\<close>: in the 512 x 512 mask of \<^verbatim>\<open>unnamed/part_001\<close> the pixel (400, 256) has
  distance 1.125, where the claim gives 148.75, and no channel of it holds that value.
  The integer part of the claim's value is not always what is stored either, because the
  source computes in doubles: in the 100 x 100 mask the pixel (22, 50) has distance 1.12,
  the claim's value is 153, and the stored value is 152. And the value goes to the three
  colour channels only: the alpha channel of the mask is 255 also where \<open>d > 1.3\<close>, as at the
  corner (0, 0).
\<close>

theorem ellipse_band_counterexample:
  "spec_ellipseDistance 0.25 0.3 512 512 400 256 = 9 / 8
   \<and> 255 * max 0 ((1.3 - spec_ellipseDistance 0.25 0.3 512 512 400 256) / 0.3) = 595 / 4
   \<and> pixel (createBackgroundMask_part_001 512 512) (256 * 512 + 400) = [148, 148, 148, 255]
   \<and> spec_ellipseDistance 0.25 0.3 100 100 22 50 = 28 / 25
   \<and> \<lfloor>255 * max 0 ((1.3 - spec_ellipseDistance 0.25 0.3 100 100 22 50) / 0.3)\<rfloor> = 153
   \<and> pixel (createBackgroundMask_part_001 100 100) (50 * 100 + 22) = [152, 152, 152, 255]
   \<and> 1.3 < spec_ellipseDistance 0.25 0.3 512 512 0 0
   \<and> pixel (createBackgroundMask_part_001 512 512) (0 * 512 + 0) = [0, 0, 0, 255]"
proof -
  have "pixel (createBackgroundMask_part_001 512 512) (256 * 512 + 400) = [148, 148, 148, 255]"
    using ellipse_pixel_value [OF _ _ part_512_band_distance part_512_band_alpha]
    by (simp add: createBackgroundMask_part_001_def)
  moreover have "pixel (createBackgroundMask_part_001 100 100) (50 * 100 + 22)
      = [152, 152, 152, 255]"
    using ellipse_pixel_value [OF _ _ part_100_band_distance part_100_band_alpha]
    by (simp add: createBackgroundMask_part_001_def)
  moreover have "pixel (createBackgroundMask_part_001 512 512) (0 * 512 + 0) = [0, 0, 0, 255]"
    using ellipse_pixel_value [OF _ _ part_512_corner_distance part_512_corner_alpha]
    by (simp add: createBackgroundMask_part_001_def)
  moreover have "255 * max 0 ((1.3 - spec_ellipseDistance 0.25 0.3 512 512 400 256) / 0.3)
      = 595 / 4"
    unfolding spec_distance_part_512_band by simp
  moreover have "\<lfloor>255 * max 0 ((1.3 - spec_ellipseDistance 0.25 0.3 100 100 22 50) / 0.3)\<rfloor>
      = 153"
    unfolding spec_distance_part_100_band by simp
  ultimately show ?thesis
    using spec_distance_part_512_corner spec_distance_part_512_band spec_distance_part_100_band
    by blast
qed

text \<open>
  Claim C4, amended. Let \<open>d\<close> be the distance of a pixel as the source computes it: the
  formula \<open>sqrt (((x - cx) / rx)\<^sup>2 + ((y - cy) / ry)\<^sup>2)\<close> of the claim with every operation
  rounded to the nearest double. For every width and height and radius fractions with
  radii \<open>rx, ry > 0\<close>, the three colour channels of the pixel hold the same value and the
  alpha channel holds 255; the value is 255 when \<open>d \<le> 1.0\<close>; it is the integer part of
  \<open>255 * max 0 ((1.3 - d) / 0.3)\<close>, with the difference, the quotient and the product each
  rounded to the nearest double, when \<open>d\<close> is above 1.0 and not above the double 1.3; and
  it is 0 when \<open>d\<close> is above the double 1.3.
\<close>

theorem ellipse_mask_bands:
  assumes "0 < fl64 (real width * fl64 fracX)" "0 < fl64 (real height * fl64 fracY)"
    and "x < width" "y < height"
  shows "let cx = fl64 (real width / 2);
             cy = fl64 (real height / 2);
             rx = fl64 (real width * fl64 fracX);
             ry = fl64 (real height * fl64 fracY);
             d = fl64 (sqrt (fl64
                   (fl64 (fl64 (fl64 (real x - cx) / rx) * fl64 (fl64 (real x - cx) / rx))
                    + fl64 (fl64 (fl64 (real y - cy) / ry) * fl64 (fl64 (real y - cy) / ry)))))
         in \<exists>alpha. pixel (createBackgroundMask_ellipse fracX fracY width height) (y * width + x)
                       = [of_int alpha, of_int alpha, of_int alpha, 255]
              \<and> 0 \<le> alpha \<and> alpha \<le> 255
              \<and> (d \<le> 1.0 \<longrightarrow> alpha = 255)
              \<and> (1.0 < d \<and> d \<le> fl64 1.3 \<longrightarrow>
                   alpha = \<lfloor>fl64 (255 * max 0 (fl64 (fl64 (fl64 1.3 - d) / fl64 0.3)))\<rfloor>)
              \<and> (fl64 1.3 < d \<longrightarrow> alpha = 0)"
proof -
  let ?d = "ellipseDistance fracX fracY width height x y"
  have "pixel (createBackgroundMask_ellipse fracX fracY width height) (y * width + x)
          = [of_int (ellipseAlpha ?d), of_int (ellipseAlpha ?d), of_int (ellipseAlpha ?d), 255]"
    using assms(3,4) by (rule pixel_createBackgroundMask_ellipse)
  moreover have "0 \<le> ellipseAlpha ?d \<and> ellipseAlpha ?d \<le> 255" by (rule ellipseAlpha_range)
  moreover have "?d \<le> 1.0 \<longrightarrow> ellipseAlpha ?d = 255" by (simp add: ellipseAlpha_def)
  moreover have "1.0 < ?d \<and> ?d \<le> fl64 1.3 \<longrightarrow>
      ellipseAlpha ?d = \<lfloor>fl64 (255 * max 0 (fl64 (fl64 (fl64 1.3 - ?d) / fl64 0.3)))\<rfloor>"
    by (simp add: ellipseAlpha_def Let_def)
  moreover have "1 < fl64 1.3" by (simp add: fl64_13_10)
  then have "fl64 1.3 < ?d \<longrightarrow> ellipseAlpha ?d = 0" by (auto simp: ellipseAlpha_def)
  ultimately show ?thesis
    unfolding Let_def ellipseDistance_def [unfolded Let_def, symmetric] by blast
qed

theorem ellipse_mask_bands_witness:
  "pixel (createBackgroundMask_part_001 512 512) (256 * 512 + 400) = [148, 148, 148, 255]"
proof -
  have "fl64 1 \<le> fl64 (real 512 * fl64 0.25)" "fl64 1 \<le> fl64 (real 512 * fl64 0.3)"
    by (rule fl64_mono, simp add: fl64_1_4 fl64_3_10)+
  then have radii: "0 < fl64 (real 512 * fl64 0.25)" "0 < fl64 (real 512 * fl64 0.3)"
    by simp_all
  have c: "(256 :: nat) < 512" "(400 :: nat) < 512" by simp_all
  have d: "ellipseDistance 0.25 0.3 512 512 400 256 = 9 / 8" by (rule part_512_band_distance)
  have band: "1.0 < (9 / 8 :: real) \<and> (9 / 8 :: real) \<le> fl64 1.3" by (simp add: fl64_13_10)
  have val: "\<lfloor>fl64 (255 * max 0 (fl64 (fl64 (fl64 1.3 - 9 / 8) / fl64 0.3)))\<rfloor> = 148"
    using part_512_band_alpha band by (simp add: ellipseAlpha_def Let_def)
  from ellipse_mask_bands [where width = 512 and height = 512 and fracX = "0.25"
      and fracY = "0.3" and x = 400 and y = 256, OF radii c(2) c(1), unfolded Let_def
        ellipseDistance_def [unfolded Let_def, symmetric] d val]
  obtain alpha :: int where
    "pixel (createBackgroundMask_ellipse 0.25 0.3 512 512) (256 * 512 + 400)
       = [of_int alpha, of_int alpha, of_int alpha, 255]"
    and "alpha = 148"
    using band by blast
  then show ?thesis unfolding createBackgroundMask_part_001_def by simp
qed

text \<open>
  Claim C7. For every input buffer, the edge map has one cell per pixel, and the cell
  of every pixel in the outermost ring holds exactly 0: the Sobel loops never write it.
\<close>

theorem border_edge_zero:
  assumes "x < width" "y < height"
    and "x = 0 \<or> y = 0 \<or> x = width - 1 \<or> y = height - 1"
  shows "length (sobelEdgeMap imageData width height) = width * height
       \<and> sobelEdgeMap imageData width height ! (y * width + x) = Fin 0"
  using assms by (simp add: sobelEdgeMap_border)

theorem border_edge_zero_witness:
  "length (sobelEdgeMap (replicate 27 200) 3 3) = 3 * 3
   \<and> sobelEdgeMap (replicate 27 200) 3 3 ! (2 * 3 + 1) = Fin 0"
  by (rule border_edge_zero) simp_all





text \<open>
  Claim C9. The synthesis always yields a width x height RGBA mask that is binary; the
  mask is the cleaned raw mask whatever the counters say, and the counters (the numbers
  of transparent and of opaque pixels of the raw mask) only decide which warnings are
  recorded. \<^verbatim>\<open>createBackgroundMask\<close> fails only when the decoder or the encoder of the
  \<^verbatim>\<open>sharp\<close> library fails; otherwise it returns the encoded mask and the warnings.
\<close>

theorem mask_synthesis_total:
  "length (cleanedMaskData (synthesizeMask imageData width height)) = width * height * 4
   \<and> binaryMask (cleanedMaskData (synthesizeMask imageData width height)) width height
   \<and> cleanedMaskData (synthesizeMask imageData width height)
       = cleanMaskArtifacts (rawMaskData (classifyPixels imageData width height)) width height
   \<and> editablePixels (classifyPixels imageData width height)
       = length (filter (\<lambda>(x, y). pixel (rawMaskData (classifyPixels imageData width height))
                                     (y * width + x) = transparentPx)
                   (coords [0..<width] [0..<height]))
   \<and> protectedPixels (classifyPixels imageData width height)
       = length (filter (\<lambda>(x, y). pixel (rawMaskData (classifyPixels imageData width height))
                                     (y * width + x) = opaquePx)
                   (coords [0..<width] [0..<height]))
   \<and> (NoBackgroundDetected \<in> set (warnings (synthesizeMask imageData width height))
        \<longleftrightarrow> editablePixels (classifyPixels imageData width height) = 0)
   \<and> (NoSubjectDetected \<in> set (warnings (synthesizeMask imageData width height))
        \<longleftrightarrow> protectedPixels (classifyPixels imageData width height) = 0)
   \<and> (decode imageBuffer width height = Some imageData
        \<and> encode (cleanedMaskData (synthesizeMask imageData width height)) width height = Some png
        \<longrightarrow> createBackgroundMask decode encode imageBuffer width height
              = Inr (png, warnings (synthesizeMask imageData width height)))
   \<and> (createBackgroundMask decode encode imageBuffer width height = Inl e
        \<longrightarrow> decode imageBuffer width height = None
            \<or> (\<exists>img. decode imageBuffer width height = Some img
                  \<and> encode (cleanedMaskData (synthesizeMask img width height)) width height = None))"
proof (intro conjI)
  show "cleanedMaskData (synthesizeMask imageData width height)
       = cleanMaskArtifacts (rawMaskData (classifyPixels imageData width height)) width height"
    by (simp add: synthesizeMask_def Let_def)
  then show "length (cleanedMaskData (synthesizeMask imageData width height)) = width * height * 4"
    by (simp add: cleanMaskArtifacts_def)
  show "binaryMask (cleanedMaskData (synthesizeMask imageData width height)) width height"
    by (simp add: synthesizeMask_def Let_def binaryMask_cleanMaskArtifacts)
  show "editablePixels (classifyPixels imageData width height)
       = length (filter (\<lambda>(x, y). pixel (rawMaskData (classifyPixels imageData width height))
                                     (y * width + x) = transparentPx)
                   (coords [0..<width] [0..<height]))"
    by (rule editablePixels_count)
  show "protectedPixels (classifyPixels imageData width height)
       = length (filter (\<lambda>(x, y). pixel (rawMaskData (classifyPixels imageData width height))
                                     (y * width + x) = opaquePx)
                   (coords [0..<width] [0..<height]))"
    by (rule protectedPixels_count)
  show "NoBackgroundDetected \<in> set (warnings (synthesizeMask imageData width height))
        \<longleftrightarrow> editablePixels (classifyPixels imageData width height) = 0"
    by (simp add: synthesizeMask_def Let_def)
  show "NoSubjectDetected \<in> set (warnings (synthesizeMask imageData width height))
        \<longleftrightarrow> protectedPixels (classifyPixels imageData width height) = 0"
    by (simp add: synthesizeMask_def Let_def)
  show "decode imageBuffer width height = Some imageData
        \<and> encode (cleanedMaskData (synthesizeMask imageData width height)) width height = Some png
        \<longrightarrow> createBackgroundMask decode encode imageBuffer width height
              = Inr (png, warnings (synthesizeMask imageData width height))"
    by (simp add: createBackgroundMask_def Let_def)
  show "createBackgroundMask decode encode imageBuffer width height = Inl e
        \<longrightarrow> decode imageBuffer width height = None
            \<or> (\<exists>img. decode imageBuffer width height = Some img
                  \<and> encode (cleanedMaskData (synthesizeMask img width height)) width height = None)"
    by (auto simp: createBackgroundMask_def Let_def split: option.splits)
qed

theorem mask_synthesis_total_witness:
  "createBackgroundMask (\<lambda>b w h. Some b) (\<lambda>m w h. Some m) [0, 0, 0] 1 1
     = Inr ([0, 0, 0, 0], [NoSubjectDetected])
   \<and> protectedPixels (classifyPixels [0, 0, 0] 1 1) = 0"
proof -
  have "createBackgroundMask (\<lambda>b w h. Some b) (\<lambda>m w h. Some m) [0, 0, 0] 1 1
      = Inr (cleanedMaskData (synthesizeMask [0, 0, 0] 1 1), warnings (synthesizeMask [0, 0, 0] 1 1))"
    using mask_synthesis_total [of "[0, 0, 0]" 1 1 "\<lambda>b w h. Some b" "[0, 0, 0]" "\<lambda>m w h. Some m"
        "cleanedMaskData (synthesizeMask [0, 0, 0] 1 1)"]
    by blast
  moreover have "NoSubjectDetected \<in> set (warnings (synthesizeMask [0, 0, 0] 1 1))"
    unfolding single_pixel_mask by simp
  then have "protectedPixels (classifyPixels [0, 0, 0] 1 1) = 0"
    using mask_synthesis_total [of "[0, 0, 0]" 1 1 "\<lambda>b w h. Some b" "[0, 0, 0]" "\<lambda>m w h. Some m"
        "cleanedMaskData (synthesizeMask [0, 0, 0] 1 1)"]
    by blast
  ultimately show ?thesis unfolding single_pixel_mask by simp
qed

end
